theory Spec2Isabelle
  imports Complex_Main "HOL-Library.Sublist"
begin

section \<open>The GitHub e-mail handler (tools/email-handler/src/main.py)\<close>

text \<open>
  The script polls a mailbox for CI failure notifications, extracts repository and
  workflow from the subject line with one regular expression, asks the \<^verbatim>\<open>gh\<close> command
  line tool for the latest run of that workflow and then archives the message or marks it
  read. This theory embeds the functions \<^verbatim>\<open>parse_github_email\<close>,
  \<^verbatim>\<open>check_workflow_status\<close>, \<^verbatim>\<open>mark_as_read\<close>, \<^verbatim>\<open>archive_message\<close>,
  \<^verbatim>\<open>process_messages\<close> and the main block.

  Python strings are lists of code points. A \<^typ>\<open>char\<close> stands for a code point below
  256; for larger code points the class \<^verbatim>\<open>\w\<close> is decided by the Unicode database,
  which is outside this model.
\<close>

subsection \<open>Regular expressions as Python's \<^verbatim>\<open>re\<close> module runs them\<close>

text \<open>
  The pattern of \<^verbatim>\<open>parse_github_email\<close> is a sequence of literal characters, of
  character classes under \<^verbatim>\<open>+\<close> (greedy) and \<^verbatim>\<open>+?\<close> (lazy), and of group
  boundaries. \<open>Star\<close> and \<open>StarLazy\<close> are the states of a \<^verbatim>\<open>+\<close> and a \<^verbatim>\<open>+?\<close> after
  their first character. \<open>Mark\<close> is a group boundary.
\<close>

datatype tok =
    Lit char
  | Plus "char \<Rightarrow> bool"
  | Star "char \<Rightarrow> bool"
  | PlusLazy "char \<Rightarrow> bool"
  | StarLazy "char \<Rightarrow> bool"
  | Mark

text \<open>
  \<open>rmatch ps s\<close> matches the pattern \<open>ps\<close> at the start of \<open>s\<close> by backtracking, in the
  order of Python's engine: a greedy repetition tries one more character before it tries
  the rest of the pattern, a lazy one tries the rest of the pattern first. The result of
  a match is the list of the inputs that were left at each \<open>Mark\<close> and at the end of the
  match.
\<close>

fun rmatch :: "tok list \<Rightarrow> string \<Rightarrow> string list option" where
  "rmatch [] s = Some [s]"
| "rmatch (Lit c # ps) s =
     (case s of [] \<Rightarrow> None | x # xs \<Rightarrow> if x = c then rmatch ps xs else None)"
| "rmatch (Mark # ps) s = map_option ((#) s) (rmatch ps s)"
| "rmatch (Plus P # ps) s =
     (case s of [] \<Rightarrow> None | x # xs \<Rightarrow> if P x then rmatch (Star P # ps) xs else None)"
| "rmatch (Star P # ps) s =
     (case s of
        [] \<Rightarrow> rmatch ps []
      | x # xs \<Rightarrow>
          if P x then
            (case rmatch (Star P # ps) xs of Some r \<Rightarrow> Some r | None \<Rightarrow> rmatch ps s)
          else rmatch ps s)"
| "rmatch (PlusLazy P # ps) s =
     (case s of [] \<Rightarrow> None | x # xs \<Rightarrow> if P x then rmatch (StarLazy P # ps) xs else None)"
| "rmatch (StarLazy P # ps) s =
     (case rmatch ps s of
        Some r \<Rightarrow> Some r
      | None \<Rightarrow>
          (case s of [] \<Rightarrow> None | x # xs \<Rightarrow> if P x then rmatch (StarLazy P # ps) xs else None))"

text \<open>\<^verbatim>\<open>re.search\<close>: the first start position, from the left, at which the pattern matches.\<close>

fun search :: "tok list \<Rightarrow> string \<Rightarrow> string list option" where
  "search ps s =
     (case rmatch ps s of
        Some r \<Rightarrow> Some r
      | None \<Rightarrow> (case s of [] \<Rightarrow> None | x # xs \<Rightarrow> search ps xs))"

text \<open>The text between two marks: \<^verbatim>\<open>match.group(i)\<close>.\<close>

definition between :: "string \<Rightarrow> string \<Rightarrow> string" where
  "between s1 s2 = take (length s1 - length s2) s1"

text \<open>
  \<^verbatim>\<open>\w\<close> on a \<^verbatim>\<open>str\<close> pattern: the alphanumeric code points and the underscore. Below
  128 these are the ASCII letters and digits; from 128 to 255 they are the two ordinal
  indicators, the micro sign, the superscript digits, the three fractions and the Latin-1
  letters.
\<close>

definition is_word_char :: "char \<Rightarrow> bool" where
  "is_word_char c =
     (let n = (of_char c :: nat) in
        (48 \<le> n \<and> n \<le> 57) \<or> (65 \<le> n \<and> n \<le> 90) \<or> n = 95 \<or> (97 \<le> n \<and> n \<le> 122) \<or>
        n = 170 \<or> n = 178 \<or> n = 179 \<or> n = 181 \<or> n = 185 \<or> n = 186 \<or>
        (188 \<le> n \<and> n \<le> 190) \<or> (192 \<le> n \<and> n \<le> 214) \<or> (216 \<le> n \<and> n \<le> 246) \<or>
        (248 \<le> n \<and> n \<le> 255))"

text \<open>The class \<^verbatim>\<open>[\w-]\<close>.\<close>

definition word_or_hyphen :: "char \<Rightarrow> bool" where
  "word_or_hyphen c = (is_word_char c \<or> c = CHR ''-'')"

text \<open>The dot, without \<^verbatim>\<open>re.DOTALL\<close>: any character but the newline.\<close>

definition dot :: "char \<Rightarrow> bool" where
  "dot c = (c \<noteq> CHR 0x0A)"

text \<open>
  The pattern of line 97,
  \<^verbatim>\<open>\[([\w-]+/[\w-]+)\] Run failed: (.+?) -\<close>.
\<close>

definition github_pattern :: "tok list" where
  "github_pattern =
     [Lit CHR ''['', Mark, Plus word_or_hyphen, Lit CHR ''/'', Plus word_or_hyphen, Mark,
      Lit CHR '']''] @ map Lit '' Run failed: '' @
     [Mark, PlusLazy dot, Mark, Lit CHR '' '', Lit CHR ''-'']"

subsection \<open>The extractor\<close>

text \<open>The dictionary of lines 103 to 108, with its four keys.\<close>

record issue_data =
  issue_type :: string
  repo :: string
  workflow :: string
  snippet :: string

text \<open>
  Exceptions: \<^verbatim>\<open>googleapiclient.errors.HttpError\<close> with its message, and every other
  exception with the name of its class.
\<close>

datatype exn = HttpError string | OtherException string

text \<open>
  The lines of the log, one constructor for each call of \<^verbatim>\<open>logging\<close> in lines 88 to
  223, with the values the line is formatted from, in the order of lines 124, 127, 137,
  102, 147, 153, 161, 165, 173, 175, 183, 185, 205, 216 and 219. \<open>Auth_Log\<close> is a line
  of \<^verbatim>\<open>get_gmail_service\<close>.
\<close>

datatype log_entry =
    Info_NoNewFailures
  | Info_FoundFailures nat
  | Info_Processing string
  | Info_Detected string string
  | Info_AlreadyPassing string
  | Info_ActionRequired string
  | Info_NoStructuredInfo
  | Error_ProcessingMessages string
  | Info_MarkedRead string
  | Error_MarkRead string
  | Info_Archived string
  | Error_Archive string
  | Error_WorkflowStatus exn
  | Info_Starting int
  | Info_DryRunMode
  | Auth_Log string

text \<open>
  \<^verbatim>\<open>parse_github_email(snippet, body)\<close>, lines 88 to 110. The second argument is never
  read. The result is the dictionary, or \<open>None\<close>, and the lines written to the log.
\<close>

definition parse_github_email :: "string \<Rightarrow> string \<Rightarrow> issue_data option \<times> log_entry list" where
  "parse_github_email snippet_arg body =
     (case search github_pattern snippet_arg of
        Some [g1, e1, g2, e2, e] \<Rightarrow>
          (Some \<lparr>issue_type = ''github_action_failure'', repo = between g1 e1,
                  workflow = between g2 e2, snippet = snippet_arg\<rparr>,
           [Info_Detected (between g1 e1) (between g2 e2)])
      | _ \<Rightarrow> (None, []))"

subsection \<open>The mailbox service, the subprocess and the log\<close>

text \<open>
  The script talks to three things outside it: the Gmail service object, the \<^verbatim>\<open>gh\<close>
  subprocess and the logger. A function of the model takes the state \<open>'w\<close> of the outside
  world and returns its Python result, the events it caused (calls and log lines, in
  order) and the new state. An exception that leaves a function is the result \<open>Inl\<close>.
  The handlers of the script tell \<^verbatim>\<open>HttpError\<close> (lines 164, 174, 184) from the other
  exceptions (\<^verbatim>\<open>except Exception\<close>, line 204), and so does \<open>exn\<close>.
\<close>

type_synonym msg_id = string

text \<open>
  A message as \<^verbatim>\<open>messages.get\<close> returns it. The script reads its snippet and, in its
  payload, the headers, each a name and a value; lines 132 to 134 allow for the absence
  of each of the three.
\<close>

record payload =
  headers :: "(string \<times> string) list option"

record message =
  msg_snippet :: "string option"
  msg_payload :: "payload option"

text \<open>
  The request body of \<^verbatim>\<open>users.messages.modify\<close>. A key that is absent from the
  dictionary is the empty list.
\<close>

record modify_body =
  addLabelIds :: "string list"
  removeLabelIds :: "string list"

text \<open>
  What a run does to the outside: the calls of the service (the list query with its
  query string, the fetch of a message, the modification of a message with its request
  body), the call of \<^verbatim>\<open>subprocess.run\<close> with its argument list, and the lines of the
  log.
\<close>

datatype event =
    Call_list string
  | Call_get msg_id
  | Call_modify msg_id modify_body
  | Call_run "string list"
  | Log log_entry

text \<open>
  The service object. A call takes the state of the world and gives the response, or the
  exception that \<^verbatim>\<open>execute()\<close> raised, and the new state. Of the response to the list
  query the script reads the key \<^verbatim>\<open>messages\<close>, which may be absent, and of each of its
  entries the id.
\<close>

record 'w service =
  messages_list :: "string \<Rightarrow> 'w \<Rightarrow> (exn + msg_id list option) \<times> 'w"
  messages_get :: "msg_id \<Rightarrow> 'w \<Rightarrow> (exn + message) \<times> 'w"
  messages_modify :: "msg_id \<Rightarrow> modify_body \<Rightarrow> 'w \<Rightarrow> (exn + unit) \<times> 'w"

text \<open>What \<^verbatim>\<open>subprocess.run\<close> returns, as far as line 198 and line 200 read it.\<close>

record completed_process =
  returncode :: int
  stdout :: string

text \<open>
  What \<^verbatim>\<open>json.loads\<close> returns. A dictionary is the list of its items. Of a number the
  script reads only whether it is zero; the floats that are not finite are truthy, like
  every \<open>JFloat\<close> other than zero.
\<close>

datatype json =
    JNull
  | JBool bool
  | JInt int
  | JFloat rat
  | JStr string
  | JArr "json list"
  | JObj "(string \<times> json) list"

text \<open>
  The two library functions of the status checker: \<^verbatim>\<open>subprocess.run\<close>, which acts on
  the world, and \<^verbatim>\<open>json.loads\<close>.
\<close>

record 'w system =
  subprocess_run :: "string list \<Rightarrow> 'w \<Rightarrow> (exn + completed_process) \<times> 'w"
  json_loads :: "string \<Rightarrow> exn + json"

subsection \<open>The status checker\<close>

text \<open>Python's truth value and \<^verbatim>\<open>len\<close> on a parsed JSON value.\<close>

fun truthy :: "json \<Rightarrow> bool" where
  "truthy JNull = False"
| "truthy (JBool b) = b"
| "truthy (JInt i) = (i \<noteq> 0)"
| "truthy (JFloat q) = (q \<noteq> 0)"
| "truthy (JStr s) = (s \<noteq> [])"
| "truthy (JArr xs) = (xs \<noteq> [])"
| "truthy (JObj kvs) = (kvs \<noteq> [])"

fun py_len :: "json \<Rightarrow> exn + nat" where
  "py_len (JStr s) = Inr (length s)"
| "py_len (JArr xs) = Inr (length xs)"
| "py_len (JObj kvs) = Inr (length kvs)"
| "py_len _ = Inl (OtherException ''TypeError'')"

text \<open>\<^verbatim>\<open>runs[0]\<close>. The keys of a JSON object are strings, so \<open>0\<close> is never one of them.\<close>

fun getitem0 :: "json \<Rightarrow> exn + json" where
  "getitem0 (JArr []) = Inl (OtherException ''IndexError'')"
| "getitem0 (JArr (x # xs)) = Inr x"
| "getitem0 (JStr []) = Inl (OtherException ''IndexError'')"
| "getitem0 (JStr (c # cs)) = Inr (JStr [c])"
| "getitem0 (JObj kvs) = Inl (OtherException ''KeyError'')"
| "getitem0 _ = Inl (OtherException ''TypeError'')"

text \<open>\<^verbatim>\<open>x.get(key)\<close>: only a dictionary has the method.\<close>

fun py_get :: "json \<Rightarrow> string \<Rightarrow> exn + json" where
  "py_get (JObj kvs) k = Inr (case map_of kvs k of None \<Rightarrow> JNull | Some v \<Rightarrow> v)"
| "py_get _ k = Inl (OtherException ''AttributeError'')"

definition gh_args :: "string \<Rightarrow> string \<Rightarrow> string list" where
  "gh_args repo_arg workflow_name =
     [''gh'', ''run'', ''list'', ''--repo'', repo_arg, ''--workflow'', workflow_name,
      ''--limit'', ''1'', ''--json'', ''conclusion'']"

text \<open>Lines 201 to 203: what is done with the parsed output.\<close>

definition status_of_runs :: "json \<Rightarrow> exn + bool" where
  "status_of_runs runs =
     (if truthy runs then
        (case py_len runs of
           Inl e \<Rightarrow> Inl e
         | Inr n \<Rightarrow>
             if n > 0 then
               (case getitem0 runs of
                  Inl e \<Rightarrow> Inl e
                | Inr first \<Rightarrow>
                    (case py_get first ''conclusion'' of
                       Inl e \<Rightarrow> Inl e
                     | Inr c \<Rightarrow> Inr (c = JStr ''success'')))
             else Inr False)
      else Inr False)"

text \<open>The body of the \<^verbatim>\<open>try\<close>, lines 190 to 203.\<close>

definition check_workflow_status_try ::
  "'w system \<Rightarrow> string \<Rightarrow> string \<Rightarrow> 'w \<Rightarrow> (exn + bool) \<times> event list \<times> 'w" where
  "check_workflow_status_try sys repo_arg workflow_name w =
     (case subprocess_run sys (gh_args repo_arg workflow_name) w of
        (Inl e, w') \<Rightarrow> (Inl e, [Call_run (gh_args repo_arg workflow_name)], w')
      | (Inr result, w') \<Rightarrow>
          (if returncode result = 0 then
             (case json_loads sys (stdout result) of
                Inl e \<Rightarrow> Inl e
              | Inr runs \<Rightarrow> status_of_runs runs)
           else Inr False,
           [Call_run (gh_args repo_arg workflow_name)], w'))"

text \<open>\<^verbatim>\<open>check_workflow_status\<close>, lines 187 to 206: the \<^verbatim>\<open>try\<close> under its handler.\<close>

definition check_workflow_status ::
  "'w system \<Rightarrow> string \<Rightarrow> string \<Rightarrow> 'w \<Rightarrow> (exn + bool) \<times> event list \<times> 'w" where
  "check_workflow_status sys repo_arg workflow_name w =
     (case check_workflow_status_try sys repo_arg workflow_name w of
        (Inl e, evs, w') \<Rightarrow> (Inr False, evs @ [Log (Error_WorkflowStatus e)], w')
      | (Inr b, evs, w') \<Rightarrow> (Inr b, evs, w'))"

subsection \<open>The two mutations\<close>

definition mark_read_body :: modify_body where
  "mark_read_body = \<lparr>addLabelIds = [], removeLabelIds = [''UNREAD'']\<rparr>"

definition archive_body :: modify_body where
  "archive_body = \<lparr>addLabelIds = [], removeLabelIds = [''INBOX'']\<rparr>"

text \<open>\<^verbatim>\<open>mark_as_read\<close>, lines 167 to 175.\<close>

definition mark_as_read ::
  "'w service \<Rightarrow> msg_id \<Rightarrow> 'w \<Rightarrow> (exn + unit) \<times> event list \<times> 'w" where
  "mark_as_read srv msg_id_arg w =
     (case messages_modify srv msg_id_arg mark_read_body w of
        (Inr u, w') \<Rightarrow>
          (Inr (), [Call_modify msg_id_arg mark_read_body, Log (Info_MarkedRead msg_id_arg)], w')
      | (Inl (HttpError err), w') \<Rightarrow>
          (Inr (), [Call_modify msg_id_arg mark_read_body, Log (Error_MarkRead err)], w')
      | (Inl (OtherException e), w') \<Rightarrow>
          (Inl (OtherException e), [Call_modify msg_id_arg mark_read_body], w'))"

text \<open>\<^verbatim>\<open>archive_message\<close>, lines 177 to 185.\<close>

definition archive_message ::
  "'w service \<Rightarrow> msg_id \<Rightarrow> 'w \<Rightarrow> (exn + unit) \<times> event list \<times> 'w" where
  "archive_message srv msg_id_arg w =
     (case messages_modify srv msg_id_arg archive_body w of
        (Inr u, w') \<Rightarrow>
          (Inr (), [Call_modify msg_id_arg archive_body, Log (Info_Archived msg_id_arg)], w')
      | (Inl (HttpError err), w') \<Rightarrow>
          (Inr (), [Call_modify msg_id_arg archive_body, Log (Error_Archive err)], w')
      | (Inl (OtherException e), w') \<Rightarrow>
          (Inl (OtherException e), [Call_modify msg_id_arg archive_body], w'))"

subsection \<open>The processing loop\<close>

text \<open>Line 136: the value of the first header named \<^verbatim>\<open>Subject\<close>.\<close>

definition subject_of :: "(string \<times> string) list \<Rightarrow> string" where
  "subject_of hs =
     (case find (\<lambda>h. fst h = ''Subject'') hs of None \<Rightarrow> ''Sin Asunto'' | Some h \<Rightarrow> snd h)"

definition message_subject :: "message \<Rightarrow> string" where
  "message_subject msg =
     subject_of
       (case msg_payload msg of
          None \<Rightarrow> []
        | Some p \<Rightarrow> (case headers p of None \<Rightarrow> [] | Some hs \<Rightarrow> hs))"

text \<open>Lines 132 to 140: the text that is handed to the extractor.\<close>

definition message_text :: "message \<Rightarrow> string" where
  "message_text msg =
     message_subject msg @ '' '' @ (case msg_snippet msg of None \<Rightarrow> [] | Some s \<Rightarrow> s)"

text \<open>The action on a message after it was fetched, lines 142 to 162.\<close>

definition act_on ::
  "'w system \<Rightarrow> 'w service \<Rightarrow> msg_id \<Rightarrow> issue_data option \<Rightarrow> 'w \<Rightarrow>
     (exn + unit) \<times> event list \<times> 'w" where
  "act_on sys srv mid issue w =
     (case issue of
        Some d \<Rightarrow>
          (case check_workflow_status sys (repo d) (workflow d) w of
             (Inl e, evs, w') \<Rightarrow> (Inl e, evs, w')
           | (Inr is_fixed, evs, w') \<Rightarrow>
               if is_fixed then
                 (case archive_message srv mid w' of
                    (r, evs', w'') \<Rightarrow>
                      (r, evs @ [Log (Info_AlreadyPassing (workflow d))] @ evs', w''))
               else
                 (case mark_as_read srv mid w' of
                    (r, evs', w'') \<Rightarrow>
                      (r, evs @ [Log (Info_ActionRequired (repo d))] @ evs', w'')))
      | None \<Rightarrow>
          (case mark_as_read srv mid w of
             (r, evs', w'') \<Rightarrow> (r, [Log Info_NoStructuredInfo] @ evs', w'')))"

text \<open>One turn of the loop, lines 130 to 162.\<close>

definition process_one ::
  "'w system \<Rightarrow> 'w service \<Rightarrow> msg_id \<Rightarrow> 'w \<Rightarrow> (exn + unit) \<times> event list \<times> 'w" where
  "process_one sys srv mid w =
     (case messages_get srv mid w of
        (Inl e, w1) \<Rightarrow> (Inl e, [Call_get mid], w1)
      | (Inr msg, w1) \<Rightarrow>
          (case parse_github_email (message_text msg) [] of
             (issue, evs_p) \<Rightarrow>
               (case act_on sys srv mid issue w1 of
                  (r, evs, w2) \<Rightarrow>
                    (r,
                     [Call_get mid, Log (Info_Processing (message_subject msg))] @
                     map Log evs_p @ evs,
                     w2))))"

text \<open>The \<^verbatim>\<open>for\<close> loop of line 129: an exception ends it.\<close>

fun process_loop ::
  "'w system \<Rightarrow> 'w service \<Rightarrow> msg_id list \<Rightarrow> 'w \<Rightarrow> (exn + unit) \<times> event list \<times> 'w" where
  "process_loop sys srv [] w = (Inr (), [], w)"
| "process_loop sys srv (mid # mids) w =
     (case process_one sys srv mid w of
        (Inl e, evs, w1) \<Rightarrow> (Inl e, evs, w1)
      | (Inr u, evs, w1) \<Rightarrow>
          (case process_loop sys srv mids w1 of (r, evs', w2) \<Rightarrow> (r, evs @ evs', w2)))"

definition query :: string where
  "query = ''from:notifications@github.com is:unread '' @ [CHR 0x22] @ ''Run failed'' @ [CHR 0x22]"

text \<open>The body of the \<^verbatim>\<open>try\<close> of \<^verbatim>\<open>process_messages\<close>, lines 115 to 162.\<close>

definition process_messages_try ::
  "'w system \<Rightarrow> 'w service \<Rightarrow> 'w \<Rightarrow> (exn + unit) \<times> event list \<times> 'w" where
  "process_messages_try sys srv w =
     (case messages_list srv query w of
        (Inl e, w1) \<Rightarrow> (Inl e, [Call_list query], w1)
      | (Inr results, w1) \<Rightarrow>
          (case (case results of None \<Rightarrow> [] | Some ms \<Rightarrow> ms) of
             [] \<Rightarrow> (Inr (), [Call_list query, Log Info_NoNewFailures], w1)
           | m # ms \<Rightarrow>
               (case process_loop sys srv (m # ms) w1 of
                  (r, evs, w2) \<Rightarrow>
                    (r, [Call_list query, Log (Info_FoundFailures (length (m # ms)))] @ evs,
                     w2))))"

text \<open>
  \<^verbatim>\<open>process_messages\<close>, lines 112 to 165: the handler of line 164 takes an
  \<^verbatim>\<open>HttpError\<close> and nothing else.
\<close>

definition process_messages ::
  "'w system \<Rightarrow> 'w service \<Rightarrow> 'w \<Rightarrow> (exn + unit) \<times> event list \<times> 'w" where
  "process_messages sys srv w =
     (case process_messages_try sys srv w of
        (Inl (HttpError err), evs, w') \<Rightarrow>
          (Inr (), evs @ [Log (Error_ProcessingMessages err)], w')
      | (Inl (OtherException e), evs, w') \<Rightarrow> (Inl (OtherException e), evs, w')
      | (Inr u, evs, w') \<Rightarrow> (Inr (), evs, w'))"

subsection \<open>The main block\<close>

record args =
  max_emails :: int
  dry_run :: bool

text \<open>
  Lines 208 to 223, after \<^verbatim>\<open>parse_args\<close>. The authentication \<^verbatim>\<open>get_gmail_service\<close>
  is a parameter: it returns the service object or \<open>None\<close>, with the lines it logged.
\<close>

definition main ::
  "args \<Rightarrow> ('w \<Rightarrow> 'w service option \<times> event list \<times> 'w) \<Rightarrow> 'w system \<Rightarrow> 'w \<Rightarrow>
     (exn + unit) \<times> event list \<times> 'w" where
  "main a get_gmail_service sys w =
     (case get_gmail_service w of
        (None, evs, w1) \<Rightarrow>
          (Inr (),
           [Log (Info_Starting (max_emails a))] @
           (if dry_run a then [Log Info_DryRunMode] else []) @ evs, w1)
      | (Some srv, evs, w1) \<Rightarrow>
          (case process_messages sys srv w1 of
             (r, evs', w2) \<Rightarrow>
               (r,
                [Log (Info_Starting (max_emails a))] @
                (if dry_run a then [Log Info_DryRunMode] else []) @ evs @ evs', w2)))"


subsection \<open>Reading a run\<close>

definition result_of :: "'a \<times> 'b \<times> 'c \<Rightarrow> 'a" where
  "result_of t = fst t"

definition events_of :: "'a \<times> 'b \<times> 'c \<Rightarrow> 'b" where
  "events_of t = fst (snd t)"

definition world_of :: "'a \<times> 'b \<times> 'c \<Rightarrow> 'c" where
  "world_of t = snd (snd t)"

text \<open>
  The rest of the loop, run on the messages \<open>mids\<close> from the state \<open>w\<close>, after the
  events \<open>evs\<close> of the turns before.
\<close>

definition loop_after ::
  "'w system \<Rightarrow> 'w service \<Rightarrow> event list \<Rightarrow> 'w \<Rightarrow> msg_id list \<Rightarrow>
     (exn + unit) \<times> event list \<times> 'w" where
  "loop_after sys srv evs w mids =
     (result_of (process_loop sys srv mids w),
      evs @ events_of (process_loop sys srv mids w),
      world_of (process_loop sys srv mids w))"

fun is_modify :: "event \<Rightarrow> bool" where
  "is_modify (Call_modify m b) = True"
| "is_modify e = False"

fun is_run :: "event \<Rightarrow> bool" where
  "is_run (Call_run a) = True"
| "is_run e = False"

text \<open>The mailbox mutations and the status checks of a run, in order.\<close>

definition mutation_calls :: "event list \<Rightarrow> event list" where
  "mutation_calls evs = filter is_modify evs"

definition status_calls :: "event list \<Rightarrow> event list" where
  "status_calls evs = filter is_run evs"

text \<open>A modify call that asks for the removal of \<^verbatim>\<open>INBOX\<close> or of \<^verbatim>\<open>UNREAD\<close> and for nothing else.\<close>

fun is_label_removal :: "event \<Rightarrow> bool" where
  "is_label_removal (Call_modify m b) = (b = archive_body \<or> b = mark_read_body)"
| "is_label_removal e = False"

subsection \<open>The shape the extractor looks for\<close>

text \<open>
  The words of the pattern, for the statements about the extractor: an owner or a
  repository name is a non-empty run of word characters and hyphens; the text
  \<open>failure_shape ow rp w\<close> is \<^verbatim>\<open>[ow/rp] Run failed: w -\<close>, ending with the hyphen; an
  occurrence of the shape in a text has a workflow \<open>w\<close> that is not empty and has no
  newline.
\<close>

definition name_ok :: "string \<Rightarrow> bool" where
  "name_ok x \<longleftrightarrow> x \<noteq> [] \<and> list_all word_or_hyphen x"

definition failure_shape :: "string \<Rightarrow> string \<Rightarrow> string \<Rightarrow> string" where
  "failure_shape ow rp w = ''['' @ ow @ ''/'' @ rp @ ''] Run failed: '' @ w @ '' -''"

definition occurrence ::
  "string \<Rightarrow> string \<Rightarrow> string \<Rightarrow> string \<Rightarrow> string \<Rightarrow> string \<Rightarrow> bool" where
  "occurrence txt pre ow rp w post \<longleftrightarrow>
     txt = pre @ failure_shape ow rp w @ post \<and> name_ok ow \<and> name_ok rp \<and>
     w \<noteq> [] \<and> list_all dot w"

text \<open>
  What the lazy group can hold: no \<^verbatim>\<open>" -"\<close> starts after the first character of the
  workflow, or the group would have ended there.
\<close>

definition workflow_ok :: "string \<Rightarrow> bool" where
  "workflow_ok w \<longleftrightarrow> w \<noteq> [] \<and> list_all dot w \<and> \<not> sublist '' -'' (tl w)"

text \<open>Pieces of the pattern and of a match, named for the proofs.\<close>

definition workflow_part :: "tok list" where
  "workflow_part = [PlusLazy dot, Mark, Lit CHR '' '', Lit CHR ''-'']"

definition run_failed :: string where
  "run_failed = ''] Run failed: ''"

definition marks :: "string \<Rightarrow> string \<Rightarrow> string \<Rightarrow> string \<Rightarrow> string list" where
  "marks ow rp w post =
     [ow @ ''/'' @ rp @ run_failed @ w @ '' -'' @ post, run_failed @ w @ '' -'' @ post,
      w @ '' -'' @ post, '' -'' @ post, post]"

subsection \<open>A mailbox\<close>

text \<open>
  Modelled from the spec: the mailbox behind the service object and the \<^verbatim>\<open>gh\<close> tool,
  which are not part of the repository. The mailbox owns the messages and their label
  sets; a message is an opaque id with a subject, a snippet and labels. A modify request
  removes the labels of \<^verbatim>\<open>removeLabelIds\<close> from the label set of the message and adds
  those of \<^verbatim>\<open>addLabelIds\<close>. A call of the service can fail: \<open>faults\<close> says, call by
  call, which exception the next call raises, if any; a failed call changes no message.
  A request for an unknown id is an \<^verbatim>\<open>HttpError\<close>.
\<close>

record stored_message =
  content :: message
  labelIds :: "string set"

record world =
  stored :: "msg_id \<rightharpoonup> stored_message"
  query_result :: "msg_id list option"
  faults :: "exn option list"
  gh_tool :: "string list \<Rightarrow> exn + completed_process"

definition next_fault :: "world \<Rightarrow> exn option \<times> world" where
  "next_fault w = (case faults w of [] \<Rightarrow> (None, w) | f # fs \<Rightarrow> (f, w\<lparr>faults := fs\<rparr>))"

definition apply_modify :: "modify_body \<Rightarrow> string set \<Rightarrow> string set" where
  "apply_modify b ls = (ls - set (removeLabelIds b)) \<union> set (addLabelIds b)"

definition gmail_list :: "string \<Rightarrow> world \<Rightarrow> (exn + msg_id list option) \<times> world" where
  "gmail_list q w =
     (case next_fault w of
        (Some e, w') \<Rightarrow> (Inl e, w')
      | (None, w') \<Rightarrow> (Inr (query_result w'), w'))"

definition gmail_get :: "msg_id \<Rightarrow> world \<Rightarrow> (exn + message) \<times> world" where
  "gmail_get mid w =
     (case next_fault w of
        (Some e, w') \<Rightarrow> (Inl e, w')
      | (None, w') \<Rightarrow>
          (case stored w' mid of
             None \<Rightarrow> (Inl (HttpError ''404''), w')
           | Some sm \<Rightarrow> (Inr (content sm), w')))"

definition gmail_modify :: "msg_id \<Rightarrow> modify_body \<Rightarrow> world \<Rightarrow> (exn + unit) \<times> world" where
  "gmail_modify mid b w =
     (case next_fault w of
        (Some e, w') \<Rightarrow> (Inl e, w')
      | (None, w') \<Rightarrow>
          (case stored w' mid of
             None \<Rightarrow> (Inl (HttpError ''404''), w')
           | Some sm \<Rightarrow>
               (Inr (),
                w'\<lparr>stored := (stored w')(mid \<mapsto> sm\<lparr>labelIds := apply_modify b (labelIds sm)\<rparr>)\<rparr>)))"

definition gmail :: "world service" where
  "gmail = \<lparr>messages_list = gmail_list, messages_get = gmail_get, messages_modify = gmail_modify\<rparr>"

definition local_system :: "(string \<Rightarrow> exn + json) \<Rightarrow> world system" where
  "local_system loads = \<lparr>subprocess_run = (\<lambda>a w. (gh_tool w a, w)), json_loads = loads\<rparr>"

text \<open>The next call of the service is served: no exception is scheduled for it.\<close>

definition served :: "world \<Rightarrow> bool" where
  "served w = (case faults w of [] \<Rightarrow> True | f # fs \<Rightarrow> f = None)"

text \<open>
  Between two states of the mailbox nothing happened to any message but the removal of
  labels among \<open>ls\<close>.
\<close>

definition only_removed :: "string set \<Rightarrow> world \<Rightarrow> world \<Rightarrow> bool" where
  "only_removed ls w w' \<longleftrightarrow>
     (\<forall>k. \<exists>r. r \<subseteq> ls \<and>
        stored w' k = map_option (\<lambda>sm. sm\<lparr>labelIds := labelIds sm - r\<rparr>) (stored w k))"

subsection \<open>Sample inputs\<close>

text \<open>
  The messages of the end-to-end scenarios, a mailbox that holds them, and a stand-in for
  \<^verbatim>\<open>json.loads\<close>.
\<close>

definition failure_subject :: string where
  "failure_subject = ''[iberi22/domus-otec] Run failed: CI - main (c33f718)''"

definition failure_message :: message where
  "failure_message =
     \<lparr>msg_snippet = Some [],
      msg_payload = Some \<lparr>headers = Some [(''From'', ''notifications@github.com''),
                                          (''Subject'', failure_subject)]\<rparr>\<rparr>"

definition unrelated_message :: message where
  "unrelated_message =
     \<lparr>msg_snippet = Some [],
      msg_payload = Some \<lparr>headers = Some [(''Subject'', ''Random unrelated subject'')]\<rparr>\<rparr>"

definition dotted_message :: message where
  "dotted_message =
     \<lparr>msg_snippet = None,
      msg_payload = Some \<lparr>headers = Some
        [(''Subject'', ''[owner/repo.js] Run failed: CI - main (sha)'')]\<rparr>\<rparr>"

definition toy_loads :: "string \<Rightarrow> exn + json" where
  "toy_loads s =
     (if s = ''passing'' then Inr (JArr [JObj [(''conclusion'', JStr ''success'')]])
      else if s = ''failing'' then Inr (JArr [JObj [(''conclusion'', JStr ''failure'')]])
      else if s = ''none'' then Inr (JArr [])
      else Inl (OtherException ''JSONDecodeError''))"

definition sample_world :: "string \<Rightarrow> exn option list \<Rightarrow> world" where
  "sample_world out fs =
     \<lparr>stored = [''m1'' \<mapsto> \<lparr>content = failure_message, labelIds = {''INBOX'', ''UNREAD''}\<rparr>,
                ''m2'' \<mapsto> \<lparr>content = unrelated_message, labelIds = {''INBOX'', ''UNREAD''}\<rparr>,
                ''m3'' \<mapsto> \<lparr>content = dotted_message, labelIds = {''INBOX'', ''UNREAD''}\<rparr>],
      query_result = Some [''m1'', ''m2''],
      faults = fs,
      gh_tool = (\<lambda>a. Inr \<lparr>returncode = 0, stdout = out\<rparr>)\<rparr>"


section \<open>Properties of the extractor\<close>

subsection \<open>The matcher, step by step\<close>

lemma rmatch_Lit_Nil: "rmatch (Lit c # ps) [] = None" by simp
lemma rmatch_Lit_Cons: "rmatch (Lit c # ps) (x # xs) = (if x = c then rmatch ps xs else None)" by simp
lemma rmatch_Plus_Nil: "rmatch (Plus P # ps) [] = None" by simp
lemma rmatch_Plus_Cons: "rmatch (Plus P # ps) (x # xs) = (if P x then rmatch (Star P # ps) xs else None)" by simp
lemma rmatch_Star_Nil: "rmatch (Star P # ps) [] = rmatch ps []" by simp
lemma rmatch_Star_Cons: "rmatch (Star P # ps) (x # xs) =
  (if P x then (case rmatch (Star P # ps) xs of Some r \<Rightarrow> Some r | None \<Rightarrow> rmatch ps (x # xs))
   else rmatch ps (x # xs))" by simp
lemma rmatch_PlusLazy_Nil: "rmatch (PlusLazy P # ps) [] = None" by simp
lemma rmatch_PlusLazy_Cons: "rmatch (PlusLazy P # ps) (x # xs) = (if P x then rmatch (StarLazy P # ps) xs else None)" by simp
lemma rmatch_StarLazy_Nil: "rmatch (StarLazy P # ps) [] = rmatch ps []"
  by (simp split: option.splits)
lemma rmatch_StarLazy_Cons: "rmatch (StarLazy P # ps) (x # xs) =
  (case rmatch ps (x # xs) of Some r \<Rightarrow> Some r
   | None \<Rightarrow> if P x then rmatch (StarLazy P # ps) xs else None)"
  by (simp split: option.splits)

lemmas rmatch_steps = rmatch_Lit_Nil rmatch_Lit_Cons rmatch_Plus_Nil rmatch_Plus_Cons
  rmatch_Star_Nil rmatch_Star_Cons rmatch_PlusLazy_Nil rmatch_PlusLazy_Cons
  rmatch_StarLazy_Nil rmatch_StarLazy_Cons

declare rmatch.simps(2,4,5,6,7) [simp del]
declare rmatch_steps [simp]
declare search.simps [simp del]

lemma rmatch_lits:
  "rmatch (map Lit cs @ ps) s = (if prefix cs s then rmatch ps (drop (length cs) s) else None)"
proof (induction cs arbitrary: s)
  case Nil
  then show ?case by simp
next
  case (Cons c cs)
  then show ?case by (cases s) auto
qed

lemma rmatch_Star_skip:
  assumes "\<And>x xs. P x \<Longrightarrow> rmatch ps (x # xs) = None"
  shows "rmatch (Star P # ps) s = rmatch ps (dropWhile P s)"
  using assms by (induction s) (auto split: option.splits)

lemma rmatch_Plus_skip:
  assumes "\<And>x xs. P x \<Longrightarrow> rmatch ps (x # xs) = None"
  shows "rmatch (Plus P # ps) s =
    (if takeWhile P s = [] then None else rmatch ps (dropWhile P s))"
  using rmatch_Star_skip[OF assms] by (cases s) auto

lemma rmatch_StarLazy_iff:
  "rmatch (StarLazy P # ps) s = Some r \<longleftrightarrow>
     (\<exists>u v. s = u @ v \<and> list_all P u \<and> rmatch ps v = Some r \<and>
        (\<forall>k<length u. rmatch ps (drop k s) = None))"
proof (induction s)
  case Nil
  then show ?case by auto
next
  case (Cons x xs)
  show ?case
  proof (cases "rmatch ps (x # xs)")
    case (Some r')
    have "(\<exists>u v. x # xs = u @ v \<and> list_all P u \<and> rmatch ps v = Some r \<and>
        (\<forall>k<length u. rmatch ps (drop k (x # xs)) = None)) \<longleftrightarrow> r' = r"
    proof
      assume "\<exists>u v. x # xs = u @ v \<and> list_all P u \<and> rmatch ps v = Some r \<and>
        (\<forall>k<length u. rmatch ps (drop k (x # xs)) = None)"
      then obtain u v where uv: "x # xs = u @ v" "rmatch ps v = Some r"
        "\<forall>k<length u. rmatch ps (drop k (x # xs)) = None" by blast
      have "u = []"
      proof (rule ccontr)
        assume "u \<noteq> []"
        then have "0 < length u" by simp
        with uv(3) have "rmatch ps (drop 0 (x # xs)) = None" by blast
        with Some show False by simp
      qed
      with uv Some show "r' = r" by simp
    next
      assume "r' = r"
      with Some have "x # xs = [] @ (x # xs) \<and> list_all P [] \<and> rmatch ps (x # xs) = Some r \<and>
        (\<forall>k<length ([]::string). rmatch ps (drop k (x # xs)) = None)" by simp
      then show "\<exists>u v. x # xs = u @ v \<and> list_all P u \<and> rmatch ps v = Some r \<and>
        (\<forall>k<length u. rmatch ps (drop k (x # xs)) = None)" by blast
    qed
    with Some show ?thesis by simp
  next
    case None
    show ?thesis
    proof (cases "P x")
      case True
      have "(\<exists>u v. x # xs = u @ v \<and> list_all P u \<and> rmatch ps v = Some r \<and>
        (\<forall>k<length u. rmatch ps (drop k (x # xs)) = None)) \<longleftrightarrow>
        (\<exists>u v. xs = u @ v \<and> list_all P u \<and> rmatch ps v = Some r \<and>
        (\<forall>k<length u. rmatch ps (drop k xs) = None))" (is "?L \<longleftrightarrow> ?R")
      proof
        assume ?L
        then obtain u v where uv: "x # xs = u @ v" "list_all P u" "rmatch ps v = Some r"
          "\<forall>k<length u. rmatch ps (drop k (x # xs)) = None" by blast
        from uv(1,3) None obtain u' where u': "u = x # u'" by (cases u) auto
        with uv(1) have "xs = u' @ v" by simp
        moreover from uv(2) u' have "list_all P u'" by simp
        moreover have "\<forall>k<length u'. rmatch ps (drop k xs) = None"
        proof (intro allI impI)
          fix k assume "k < length u'"
          then have "Suc k < length u" using u' by simp
          with uv(4) have "rmatch ps (drop (Suc k) (x # xs)) = None" by blast
          then show "rmatch ps (drop k xs) = None" by simp
        qed
        ultimately show ?R using uv(3) by blast
      next
        assume ?R
        then obtain u v where uv: "xs = u @ v" "list_all P u" "rmatch ps v = Some r"
          "\<forall>k<length u. rmatch ps (drop k xs) = None" by blast
        have "x # xs = (x # u) @ v" using uv(1) by simp
        moreover have "list_all P (x # u)" using uv(2) True by simp
        moreover have "\<forall>k<length (x # u). rmatch ps (drop k (x # xs)) = None"
        proof (intro allI impI)
          fix k assume k: "k < length (x # u)"
          show "rmatch ps (drop k (x # xs)) = None"
          proof (cases k)
            case 0
            then show ?thesis using None by simp
          next
            case (Suc j)
            with k have "j < length u" by simp
            with uv(4) Suc show ?thesis by simp
          qed
        qed
        ultimately show ?L using uv(3) by blast
      qed
      with None True Cons.IH show ?thesis by simp
    next
      case False
      have "\<not> (\<exists>u v. x # xs = u @ v \<and> list_all P u \<and> rmatch ps v = Some r \<and>
        (\<forall>k<length u. rmatch ps (drop k (x # xs)) = None))"
      proof
        assume "\<exists>u v. x # xs = u @ v \<and> list_all P u \<and> rmatch ps v = Some r \<and>
        (\<forall>k<length u. rmatch ps (drop k (x # xs)) = None)"
        then obtain u v where uv: "x # xs = u @ v" "list_all P u" "rmatch ps v = Some r" by blast
        from uv(1,3) None obtain u' where u': "u = x # u'" by (cases u) auto
        with uv(2) False show False by simp
      qed
      with None False show ?thesis by simp
    qed
  qed
qed

lemma rmatch_tail:
  "rmatch [Mark, Lit CHR '' '', Lit CHR ''-''] v =
     (if prefix '' -'' v then Some [v, drop 2 v] else None)"
proof (cases v)
  case Nil
  then show ?thesis by simp
next
  case (Cons a v')
  then show ?thesis by (cases v') auto
qed

lemma early_space_hyphen:
  "(\<exists>k<length u. prefix '' -'' (drop k (u @ '' -'' @ post))) \<longleftrightarrow> sublist '' -'' u"
proof (induction u)
  case Nil
  then show ?case by simp
next
  case (Cons a u)
  have split: "(\<exists>k<length (a # u). prefix '' -'' (drop k ((a # u) @ '' -'' @ post))) \<longleftrightarrow>
      prefix '' -'' ((a # u) @ '' -'' @ post) \<or>
      (\<exists>k<length u. prefix '' -'' (drop k (u @ '' -'' @ post)))" (is "?L \<longleftrightarrow> ?A \<or> ?B")
  proof
    assume ?L
    then obtain k where k: "k < length (a # u)" "prefix '' -'' (drop k ((a # u) @ '' -'' @ post))"
      by blast
    show "?A \<or> ?B"
    proof (cases k)
      case 0
      have ?A using k(2) unfolding 0 drop_0 .
      then show ?thesis ..
    next
      case (Suc j)
      with k have "j < length u \<and> prefix '' -'' (drop j (u @ '' -'' @ post))" by simp
      then show ?thesis by blast
    qed
  next
    assume "?A \<or> ?B"
    then show ?L
    proof
      assume A: ?A
      have "0 < length (a # u)" by simp
      moreover have "prefix '' -'' (drop 0 ((a # u) @ '' -'' @ post))"
        using A unfolding drop_0 .
      ultimately show ?L by blast
    next
      assume ?B
      then obtain j where "j < length u" "prefix '' -'' (drop j (u @ '' -'' @ post))" by blast
      then have "Suc j < length (a # u) \<and> prefix '' -'' (drop (Suc j) ((a # u) @ '' -'' @ post))"
        by simp
      then show ?L by blast
    qed
  qed
  have first: "prefix '' -'' ((a # u) @ '' -'' @ post) \<longleftrightarrow> prefix '' -'' (a # u)"
    by (cases u) auto
  show ?case
    unfolding split first Cons.IH by (simp add: sublist_Cons_right)
qed

lemma rmatch_workflow:
  "rmatch [PlusLazy dot, Mark, Lit CHR '' '', Lit CHR ''-''] s = Some r \<longleftrightarrow>
     (\<exists>w post. s = w @ '' -'' @ post \<and> workflow_ok w \<and> r = ['' -'' @ post, post])"
proof (cases s)
  case Nil
  then show ?thesis by (simp add: workflow_ok_def)
next
  case (Cons x xs)
  let ?tl = "[Mark, Lit CHR '' '', Lit CHR ''-'']"
  show ?thesis
  proof
    assume "rmatch [PlusLazy dot, Mark, Lit CHR '' '', Lit CHR ''-''] s = Some r"
    with Cons have x: "dot x" and m: "rmatch (StarLazy dot # ?tl) xs = Some r"
      by (auto split: if_splits)
    from m obtain u v where uv: "xs = u @ v" "list_all dot u" "rmatch ?tl v = Some r"
      "\<forall>k<length u. rmatch ?tl (drop k xs) = None"
      unfolding rmatch_StarLazy_iff by blast
    from uv(3)[unfolded rmatch_tail] have pv: "prefix '' -'' v" and r: "r = [v, drop 2 v]"
      by (auto split: if_splits)
    from pv obtain post where v: "v = '' -'' @ post" by (auto simp: prefix_def)
    have "\<not> (\<exists>k<length u. prefix '' -'' (drop k (u @ '' -'' @ post)))"
      using uv(4)[unfolded rmatch_tail] uv(1) v by (auto split: if_splits)
    then have "\<not> sublist '' -'' u" unfolding early_space_hyphen .
    with x uv(2) have "workflow_ok (x # u)" by (simp add: workflow_ok_def)
    moreover have "s = (x # u) @ '' -'' @ post" using Cons uv(1) v by simp
    moreover have "r = ['' -'' @ post, post]" using r v by simp
    ultimately show "\<exists>w post. s = w @ '' -'' @ post \<and> workflow_ok w \<and> r = ['' -'' @ post, post]"
      by blast
  next
    assume "\<exists>w post. s = w @ '' -'' @ post \<and> workflow_ok w \<and> r = ['' -'' @ post, post]"
    then obtain w post where w: "s = w @ '' -'' @ post" "workflow_ok w" "r = ['' -'' @ post, post]"
      by blast
    from w(2) obtain u where u: "w = x # u" "xs = u @ '' -'' @ post"
      using Cons w(1) by (cases w) (auto simp: workflow_ok_def)
    from w(2) u have x: "dot x" and du: "list_all dot u" and ns: "\<not> sublist '' -'' u"
      by (simp_all add: workflow_ok_def)
    from ns have "\<not> (\<exists>k<length u. prefix '' -'' (drop k (u @ '' -'' @ post)))"
      unfolding early_space_hyphen .
    then have "\<forall>k<length u. rmatch ?tl (drop k xs) = None"
      unfolding rmatch_tail using u(2) by simp
    moreover have "rmatch ?tl ('' -'' @ post) = Some r" unfolding rmatch_tail using w(3) by simp
    ultimately have "rmatch (StarLazy dot # ?tl) xs = Some r"
      unfolding rmatch_StarLazy_iff using u(2) du by blast
    with x Cons show "rmatch [PlusLazy dot, Mark, Lit CHR '' '', Lit CHR ''-''] s = Some r"
      by simp
  qed
qed

lemma not_word_or_hyphen_slash: "\<not> word_or_hyphen CHR ''/''"
  by (simp add: word_or_hyphen_def is_word_char_def)

lemma not_word_or_hyphen_bracket: "\<not> word_or_hyphen CHR '']''"
  by (simp add: word_or_hyphen_def is_word_char_def)

lemma rmatch_name_slash:
  "rmatch (Plus word_or_hyphen # Lit CHR ''/'' # ps) s =
     (if takeWhile word_or_hyphen s = [] then None
      else rmatch (Lit CHR ''/'' # ps) (dropWhile word_or_hyphen s))"
  by (rule rmatch_Plus_skip) (auto simp: not_word_or_hyphen_slash)

lemma github_pattern_split:
  "github_pattern =
     Lit CHR ''['' # Mark # Plus word_or_hyphen # Lit CHR ''/'' # Plus word_or_hyphen # Mark #
     (map Lit run_failed @ Mark # workflow_part)"
  by (simp add: github_pattern_def workflow_part_def run_failed_def)

lemma rmatch_run_failed:
  "rmatch (Mark # map Lit run_failed @ Mark # workflow_part) t =
     (if prefix run_failed t
      then map_option (\<lambda>r. t # drop (length run_failed) t # r)
             (rmatch workflow_part (drop (length run_failed) t))
      else None)"
  by (simp add: rmatch_lits option.map_comp comp_def)

lemma rmatch_github_pattern_Cons:
  "rmatch github_pattern (c # s1) =
     (if c = CHR ''['' \<and> takeWhile word_or_hyphen s1 \<noteq> [] then
        (case dropWhile word_or_hyphen s1 of
           [] \<Rightarrow> None
         | c2 # s2 \<Rightarrow>
             if c2 = CHR ''/'' \<and> takeWhile word_or_hyphen s2 \<noteq> [] \<and>
                prefix run_failed (dropWhile word_or_hyphen s2)
             then map_option
                    (\<lambda>r. s1 # dropWhile word_or_hyphen s2 #
                         drop (length run_failed) (dropWhile word_or_hyphen s2) # r)
                    (rmatch workflow_part (drop (length run_failed) (dropWhile word_or_hyphen s2)))
             else None)
      else None)"
proof -
  have skip: "rmatch (Plus word_or_hyphen # Mark # map Lit run_failed @ Mark # workflow_part) s2 =
      (if takeWhile word_or_hyphen s2 = [] then None
       else rmatch (Mark # map Lit run_failed @ Mark # workflow_part) (dropWhile word_or_hyphen s2))"
    for s2
    by (rule rmatch_Plus_skip)
      (simp add: run_failed_def not_word_or_hyphen_bracket del: rmatch_Lit_Cons,
       auto simp: not_word_or_hyphen_bracket)
  have mid: "rmatch (Plus word_or_hyphen # Mark # map Lit run_failed @ Mark # workflow_part) s2 =
      (if takeWhile word_or_hyphen s2 = [] then None
       else if prefix run_failed (dropWhile word_or_hyphen s2)
         then map_option (\<lambda>r. dropWhile word_or_hyphen s2 #
                  drop (length run_failed) (dropWhile word_or_hyphen s2) # r)
             (rmatch workflow_part (drop (length run_failed) (dropWhile word_or_hyphen s2)))
         else None)"
    for s2
    unfolding skip rmatch_run_failed ..
  show ?thesis
  proof (cases "dropWhile word_or_hyphen s1")
    case Nil
    then show ?thesis
      unfolding github_pattern_split
      by (simp add: rmatch_name_slash del: dropWhile_eq_Nil_conv)
  next
    case (Cons c2 s2)
    then show ?thesis
      unfolding github_pattern_split
      by (simp add: rmatch_name_slash mid option.map_comp comp_def)
  qed
qed

lemma rmatch_github_pattern_Nil: "rmatch github_pattern [] = None"
  unfolding github_pattern_split by simp

lemma failure_shape_alt:
  "failure_shape ow rp w @ post = CHR ''['' # ow @ CHR ''/'' # rp @ run_failed @ w @ '' -'' @ post"
  by (simp add: failure_shape_def run_failed_def)

lemma takeWhile_name:
  "list_all P xs \<Longrightarrow> \<not> P y \<Longrightarrow> takeWhile P (xs @ y # ys) = xs"
  by (induction xs) auto

lemma dropWhile_name:
  "list_all P xs \<Longrightarrow> \<not> P y \<Longrightarrow> dropWhile P (xs @ y # ys) = y # ys"
  by (induction xs) auto

lemma run_failed_Cons: "run_failed @ t = CHR '']'' # '' Run failed: '' @ t"
  by (simp add: run_failed_def)

lemma rmatch_workflow_part:
  "rmatch workflow_part s = Some r \<longleftrightarrow>
     (\<exists>w post. s = w @ '' -'' @ post \<and> workflow_ok w \<and> r = ['' -'' @ post, post])"
  unfolding workflow_part_def by (rule rmatch_workflow)

lemma rmatch_github_pattern_iff:
  "rmatch github_pattern s = Some r \<longleftrightarrow>
     (\<exists>ow rp w post. s = failure_shape ow rp w @ post \<and> name_ok ow \<and> name_ok rp \<and>
        workflow_ok w \<and> r = marks ow rp w post)"
proof
  assume m: "rmatch github_pattern s = Some r"
  then obtain c s1 where s: "s = c # s1"
    by (cases s) (auto simp: rmatch_github_pattern_Nil)
  let ?P = word_or_hyphen
  from m s have c: "c = CHR ''[''" and ow: "takeWhile ?P s1 \<noteq> []"
    by (auto simp: rmatch_github_pattern_Cons split: if_splits)
  from m s c ow obtain c2 s2 where d1: "dropWhile ?P s1 = c2 # s2"
    by (cases "dropWhile ?P s1") (auto simp: rmatch_github_pattern_Cons simp del: dropWhile_eq_Nil_conv)
  from m s c ow d1 have c2: "c2 = CHR ''/''" and rp: "takeWhile ?P s2 \<noteq> []"
    and pf: "prefix run_failed (dropWhile ?P s2)"
    by (auto simp: rmatch_github_pattern_Cons split: if_splits)
  from pf obtain t where t: "dropWhile ?P s2 = run_failed @ t" by (auto simp: prefix_def)
  from m s c ow d1 c2 rp pf t obtain r' where r': "rmatch workflow_part t = Some r'"
    and r: "r = s1 # dropWhile ?P s2 # t # r'"
    by (auto simp: rmatch_github_pattern_Cons)
  from r' obtain w post where w: "t = w @ '' -'' @ post" "workflow_ok w" "r' = ['' -'' @ post, post]"
    unfolding rmatch_workflow_part by blast
  have s2: "s2 = takeWhile ?P s2 @ run_failed @ w @ '' -'' @ post"
    using takeWhile_dropWhile_id[of ?P s2] t w(1) by simp
  have s1: "s1 = takeWhile ?P s1 @ CHR ''/'' # s2"
    using takeWhile_dropWhile_id[of ?P s1] d1 c2 by simp
  have "s = failure_shape (takeWhile ?P s1) (takeWhile ?P s2) w @ post"
    unfolding failure_shape_alt s c using s1 s2 by simp
  moreover have "name_ok (takeWhile ?P s1)" using ow
    by (simp add: name_ok_def list_all_iff) (meson set_takeWhileD)
  moreover have "name_ok (takeWhile ?P s2)" using rp
    by (simp add: name_ok_def list_all_iff) (meson set_takeWhileD)
  moreover have "r = marks (takeWhile ?P s1) (takeWhile ?P s2) w post"
    unfolding marks_def r w(3) using s1 s2 t w(1) by simp
  ultimately show "\<exists>ow rp w post. s = failure_shape ow rp w @ post \<and> name_ok ow \<and> name_ok rp \<and>
        workflow_ok w \<and> r = marks ow rp w post"
    using w(2) by blast
next
  assume "\<exists>ow rp w post. s = failure_shape ow rp w @ post \<and> name_ok ow \<and> name_ok rp \<and>
        workflow_ok w \<and> r = marks ow rp w post"
  then obtain ow rp w post where s: "s = failure_shape ow rp w @ post"
    and ow: "name_ok ow" and rp: "name_ok rp" and w: "workflow_ok w"
    and r: "r = marks ow rp w post" by blast
  let ?P = word_or_hyphen
  let ?s2 = "rp @ run_failed @ w @ '' -'' @ post"
  have t1: "takeWhile ?P (ow @ CHR ''/'' # ?s2) = ow"
    using ow by (intro takeWhile_name) (simp_all add: name_ok_def not_word_or_hyphen_slash)
  have d1: "dropWhile ?P (ow @ CHR ''/'' # ?s2) = CHR ''/'' # ?s2"
    using ow by (intro dropWhile_name) (simp_all add: name_ok_def not_word_or_hyphen_slash)
  have t2: "takeWhile ?P ?s2 = rp"
    unfolding run_failed_Cons using rp
    by (intro takeWhile_name) (simp_all add: name_ok_def not_word_or_hyphen_bracket)
  have d2: "dropWhile ?P ?s2 = run_failed @ w @ '' -'' @ post"
    unfolding run_failed_Cons using rp
    by (intro dropWhile_name) (simp_all add: name_ok_def not_word_or_hyphen_bracket)
  have wm: "rmatch workflow_part (w @ '' -'' @ post) = Some ['' -'' @ post, post]"
    unfolding rmatch_workflow_part using w by blast
  have "rmatch github_pattern (CHR ''['' # ow @ CHR ''/'' # ?s2) = Some (marks ow rp w post)"
    unfolding rmatch_github_pattern_Cons t1 d1 list.case t2 d2
    using ow rp wm by (simp add: name_ok_def marks_def)
  then show "rmatch github_pattern s = Some r"
    unfolding s r failure_shape_alt .
qed

lemma search_StarLazy: "search ps s = rmatch (StarLazy (\<lambda>_. True) # ps) s"
proof (induction s)
  case Nil
  show ?case by (subst search.simps) (simp split: option.splits)
next
  case (Cons x xs)
  show ?case by (subst search.simps) (simp add: Cons.IH split: option.splits)
qed

lemma search_iff:
  "search ps s = Some r \<longleftrightarrow>
     (\<exists>pre rest. s = pre @ rest \<and> rmatch ps rest = Some r \<and>
        (\<forall>k<length pre. rmatch ps (drop k s) = None))"
  unfolding search_StarLazy rmatch_StarLazy_iff by (simp add: list_all_iff)

lemma rmatch_StarLazy_exists:
  "list_all P u \<Longrightarrow> rmatch ps v \<noteq> None \<Longrightarrow> rmatch (StarLazy P # ps) (u @ v) \<noteq> None"
proof (induction u)
  case Nil
  then show ?case by (cases v) (auto split: option.splits)
next
  case (Cons x u)
  then show ?case by (auto split: option.splits)
qed

lemma search_exists: "rmatch ps rest \<noteq> None \<Longrightarrow> search ps (pre @ rest) \<noteq> None"
  unfolding search_StarLazy by (rule rmatch_StarLazy_exists) (simp_all add: list_all_iff)

lemma shortest_workflow_exists:
  assumes "w \<noteq> []" "list_all dot w"
  shows "\<exists>w' post'. w @ '' -'' @ post = w' @ '' -'' @ post' \<and> workflow_ok w'"
proof -
  from assms obtain x u where w: "w = x # u" "dot x" "list_all dot u" by (cases w) auto
  have "rmatch [Mark, Lit CHR '' '', Lit CHR ''-''] ('' -'' @ post) \<noteq> None"
    unfolding rmatch_tail by simp
  with w(3) have "rmatch (StarLazy dot # [Mark, Lit CHR '' '', Lit CHR ''-'']) (u @ '' -'' @ post) \<noteq> None"
    by (rule rmatch_StarLazy_exists)
  with w have "rmatch workflow_part (w @ '' -'' @ post) \<noteq> None"
    by (simp add: workflow_part_def)
  then obtain r where "rmatch workflow_part (w @ '' -'' @ post) = Some r" by blast
  then show ?thesis unfolding rmatch_workflow_part by blast
qed

lemma rmatch_github_pattern_None_iff:
  "rmatch github_pattern s = None \<longleftrightarrow> \<not> (\<exists>ow rp w post. occurrence s [] ow rp w post)"
proof -
  have "(\<exists>r. rmatch github_pattern s = Some r) \<longleftrightarrow> (\<exists>ow rp w post. occurrence s [] ow rp w post)"
  proof
    assume "\<exists>r. rmatch github_pattern s = Some r"
    then show "\<exists>ow rp w post. occurrence s [] ow rp w post"
      unfolding rmatch_github_pattern_iff occurrence_def workflow_ok_def by auto
  next
    assume "\<exists>ow rp w post. occurrence s [] ow rp w post"
    then obtain ow rp w post where o: "s = failure_shape ow rp w @ post" "name_ok ow" "name_ok rp"
      "w \<noteq> []" "list_all dot w" unfolding occurrence_def by auto
    from shortest_workflow_exists[OF o(4,5)] obtain w' post'
      where w': "w @ '' -'' @ post = w' @ '' -'' @ post'" "workflow_ok w'" by blast
    have "s = failure_shape ow rp w' @ post'"
      unfolding o(1) failure_shape_alt using w'(1) by simp
    with o(2,3) w'(2) have "rmatch github_pattern s = Some (marks ow rp w' post')"
      unfolding rmatch_github_pattern_iff by blast
    then show "\<exists>r. rmatch github_pattern s = Some r" by blast
  qed
  then show ?thesis by auto
qed

lemma occurrence_drop:
  "occurrence txt pre ow rp w post \<longleftrightarrow>
     length pre \<le> length txt \<and> pre = take (length pre) txt \<and>
     occurrence (drop (length pre) txt) [] ow rp w post"
  unfolding occurrence_def
  by (metis append_Nil append_eq_conv_conj append_take_drop_id length_append le_add1)

lemma between_append: "between (a @ b) b = a"
  by (simp add: between_def)

lemma parse_github_email_Some:
  assumes "search github_pattern txt = Some (marks ow rp w post)"
  shows "parse_github_email txt body =
     (Some \<lparr>issue_type = ''github_action_failure'', repo = ow @ ''/'' @ rp, workflow = w,
            snippet = txt\<rparr>, [Info_Detected (ow @ ''/'' @ rp) w])"
proof -
  have "between (ow @ ''/'' @ rp @ run_failed @ w @ '' -'' @ post) (run_failed @ w @ '' -'' @ post)
      = ow @ ''/'' @ rp"
    using between_append[of "ow @ ''/'' @ rp" "run_failed @ w @ '' -'' @ post"] by simp
  moreover have "between (w @ '' -'' @ post) ('' -'' @ post) = w"
    by (rule between_append)
  ultimately show ?thesis
    unfolding parse_github_email_def assms marks_def by (simp add: Let_def)
qed

lemma parse_github_email_None:
  "search github_pattern txt = None \<Longrightarrow> parse_github_email txt body = (None, [])"
  unfolding parse_github_email_def by simp

lemma search_None_iff:
  "search github_pattern txt = None \<longleftrightarrow>
     \<not> (\<exists>pre ow rp w post. occurrence txt pre ow rp w post)"
proof
  assume n: "search github_pattern txt = None"
  show "\<not> (\<exists>pre ow rp w post. occurrence txt pre ow rp w post)"
  proof
    assume "\<exists>pre ow rp w post. occurrence txt pre ow rp w post"
    then obtain pre ow rp w post where o: "occurrence txt pre ow rp w post" by blast
    then have "occurrence (drop (length pre) txt) [] ow rp w post" and "pre = take (length pre) txt"
      using occurrence_drop[of _ pre] by blast+
    then have "rmatch github_pattern (drop (length pre) txt) \<noteq> None"
      and "txt = pre @ drop (length pre) txt"
      using rmatch_github_pattern_None_iff by (blast, metis append_take_drop_id)
    then have "search github_pattern txt \<noteq> None"
      using search_exists by metis
    with n show False by simp
  qed
next
  assume no: "\<not> (\<exists>pre ow rp w post. occurrence txt pre ow rp w post)"
  show "search github_pattern txt = None"
  proof (rule ccontr)
    assume "search github_pattern txt \<noteq> None"
    then obtain r where "search github_pattern txt = Some r" by blast
    then obtain pre rest where pr: "txt = pre @ rest" "rmatch github_pattern rest = Some r"
      unfolding search_iff by blast
    then obtain ow rp w post where "rest = failure_shape ow rp w @ post" "name_ok ow" "name_ok rp"
      "workflow_ok w" unfolding rmatch_github_pattern_iff by blast
    with pr(1) have "occurrence txt pre ow rp w post"
      by (simp add: occurrence_def workflow_ok_def)
    with no show False by blast
  qed
qed

lemma search_Some_iff:
  "search github_pattern txt = Some r \<longleftrightarrow>
     (\<exists>pre ow rp w post. occurrence txt pre ow rp w post \<and> \<not> sublist '' -'' (tl w) \<and>
        (\<forall>pre' ow' rp' w' post'. occurrence txt pre' ow' rp' w' post' \<longrightarrow> length pre \<le> length pre') \<and>
        r = marks ow rp w post)"
proof
  assume "search github_pattern txt = Some r"
  then obtain pre rest where pr: "txt = pre @ rest" "rmatch github_pattern rest = Some r"
    and first: "\<forall>k<length pre. rmatch github_pattern (drop k txt) = None"
    unfolding search_iff by blast
  from pr(2) obtain ow rp w post where d: "rest = failure_shape ow rp w @ post" "name_ok ow"
    "name_ok rp" "workflow_ok w" "r = marks ow rp w post"
    unfolding rmatch_github_pattern_iff by blast
  have occ: "occurrence txt pre ow rp w post" and short: "\<not> sublist '' -'' (tl w)"
    using pr(1) d by (simp_all add: occurrence_def workflow_ok_def)
  have "length pre \<le> length pre'" if o': "occurrence txt pre' ow' rp' w' post'"
    for pre' ow' rp' w' post'
  proof (rule ccontr)
    assume "\<not> length pre \<le> length pre'"
    then have "length pre' < length pre" by simp
    with first have "rmatch github_pattern (drop (length pre') txt) = None" by blast
    moreover from o' have "occurrence (drop (length pre') txt) [] ow' rp' w' post'"
      using occurrence_drop[of _ pre'] by blast
    ultimately show False unfolding rmatch_github_pattern_None_iff by blast
  qed
  with occ short d(5) show "\<exists>pre ow rp w post. occurrence txt pre ow rp w post \<and>
        \<not> sublist '' -'' (tl w) \<and>
        (\<forall>pre' ow' rp' w' post'. occurrence txt pre' ow' rp' w' post' \<longrightarrow> length pre \<le> length pre') \<and>
        r = marks ow rp w post" by blast
next
  assume "\<exists>pre ow rp w post. occurrence txt pre ow rp w post \<and> \<not> sublist '' -'' (tl w) \<and>
        (\<forall>pre' ow' rp' w' post'. occurrence txt pre' ow' rp' w' post' \<longrightarrow> length pre \<le> length pre') \<and>
        r = marks ow rp w post"
  then obtain pre ow rp w post where occ: "occurrence txt pre ow rp w post"
    and short: "\<not> sublist '' -'' (tl w)"
    and first: "\<forall>pre' ow' rp' w' post'. occurrence txt pre' ow' rp' w' post' \<longrightarrow> length pre \<le> length pre'"
    and r: "r = marks ow rp w post" by blast
  let ?rest = "failure_shape ow rp w @ post"
  from occ have tx: "txt = pre @ ?rest" and ok: "name_ok ow" "name_ok rp" "workflow_ok w"
    using short by (simp_all add: occurrence_def workflow_ok_def)
  from ok have m: "rmatch github_pattern ?rest = Some r"
    unfolding rmatch_github_pattern_iff r by blast
  have "rmatch github_pattern (drop k txt) = None" if k: "k < length pre" for k
  proof (rule ccontr)
    assume "rmatch github_pattern (drop k txt) \<noteq> None"
    then obtain ow' rp' w' post' where "occurrence (drop k txt) [] ow' rp' w' post'"
      unfolding rmatch_github_pattern_None_iff by blast
    moreover have "length (take k txt) = k" using k tx by simp
    ultimately have "occurrence txt (take k txt) ow' rp' w' post'"
      using occurrence_drop[of _ "take k txt"] k tx by simp
    with first have "length pre \<le> length (take k txt)" by blast
    with k show False by simp
  qed
  with tx m show "search github_pattern txt = Some r"
    unfolding search_iff by blast
qed

lemma marks_inject:
  assumes "marks ow' rp' w' post' = marks ow rp w post"
  shows "ow' @ ''/'' @ rp' = ow @ ''/'' @ rp \<and> w' = w \<and> post' = post"
proof -
  have five: "a = a' \<and> b = b' \<and> c = c' \<and> e = e'"
    if "[a, b, c, d, e] = [a', b', c', d', e']" for a b c d e a' b' c' d' e' :: string
    using that by simp
  from five[OF assms[unfolded marks_def]]
  have a: "ow' @ ''/'' @ rp' @ run_failed @ w' @ '' -'' @ post' =
           ow @ ''/'' @ rp @ run_failed @ w @ '' -'' @ post"
    and c: "w' @ '' -'' @ post' = w @ '' -'' @ post" and e: "post' = post"
    by blast+
  from c e have "w' @ ('' -'' @ post) = w @ ('' -'' @ post)" by simp
  then have w: "w' = w" by (simp only: append_same_eq)
  from a w e have "(ow' @ ''/'' @ rp') @ (run_failed @ w @ '' -'' @ post) =
      (ow @ ''/'' @ rp) @ (run_failed @ w @ '' -'' @ post)" by simp
  then have "ow' @ ''/'' @ rp' = ow @ ''/'' @ rp" by (simp only: append_same_eq)
  with w e show ?thesis by simp
qed

subsection \<open>What the extractor returns\<close>

text \<open>
  Claim C2, as the code has it. The extractor returns nothing exactly when its text holds
  no occurrence of \<^verbatim>\<open>[ow/rp] Run failed: w -\<close> with \<open>ow\<close> and \<open>rp\<close> non-empty runs of
  word characters and hyphens and \<open>w\<close> non-empty and free of newlines; the shape ends
  with the hyphen, a space after it is not asked for. It returns a record exactly for the
  occurrence that starts leftmost in the text, with the shortest workflow that a
  \<^verbatim>\<open>" -"\<close> follows: the repository of the record is \<open>ow/rp\<close>, its workflow is \<open>w\<close>
  and its snippet is the whole text.
\<close>

theorem parse_github_email_leftmost_shortest:
  "(fst (parse_github_email txt body) = None \<longleftrightarrow>
      \<not> (\<exists>pre ow rp w post. occurrence txt pre ow rp w post)) \<and>
   (fst (parse_github_email txt body) = Some d \<longleftrightarrow>
      (\<exists>pre ow rp w post. occurrence txt pre ow rp w post \<and> \<not> sublist '' -'' (tl w) \<and>
         (\<forall>pre' ow' rp' w' post'. occurrence txt pre' ow' rp' w' post' \<longrightarrow>
            length pre \<le> length pre') \<and>
         d = \<lparr>issue_type = ''github_action_failure'', repo = ow @ ''/'' @ rp, workflow = w,
               snippet = txt\<rparr>))"
proof (cases "search github_pattern txt")
  case None
  then have "fst (parse_github_email txt body) = None"
    by (simp add: parse_github_email_None)
  moreover from None have "\<not> (\<exists>pre ow rp w post. occurrence txt pre ow rp w post)"
    unfolding search_None_iff .
  ultimately show ?thesis by auto
next
  case (Some r)
  then obtain pre ow rp w post where occ: "occurrence txt pre ow rp w post"
    and short: "\<not> sublist '' -'' (tl w)"
    and first: "\<forall>pre' ow' rp' w' post'. occurrence txt pre' ow' rp' w' post' \<longrightarrow> length pre \<le> length pre'"
    and r: "r = marks ow rp w post"
    unfolding search_Some_iff by blast
  let ?d = "\<lparr>issue_type = ''github_action_failure'', repo = ow @ ''/'' @ rp, workflow = w,
               snippet = txt\<rparr>"
  have res: "fst (parse_github_email txt body) = Some ?d"
    using Some r by (simp add: parse_github_email_Some)
  have uniq: "ow' = ow \<and> rp' = rp \<and> w' = w"
    if o': "occurrence txt pre' ow' rp' w' post'" "\<not> sublist '' -'' (tl w')"
      "\<forall>p a b c e. occurrence txt p a b c e \<longrightarrow> length pre' \<le> length p"
    for pre' ow' rp' w' post'
  proof -
    from o' have "search github_pattern txt = Some (marks ow' rp' w' post')"
      unfolding search_Some_iff by blast
    with Some r have "marks ow' rp' w' post' = marks ow rp w post" by simp
    then have meq: "marks ow' rp' w' post' = marks ow rp w post" .
    from marks_inject[OF meq] have "ow' @ ''/'' @ rp' = ow @ ''/'' @ rp" and w: "w' = w"
      by simp_all
    moreover have "CHR ''/'' \<notin> set ow'" "CHR ''/'' \<notin> set rp'"
      using o'(1) not_word_or_hyphen_slash
      by (auto simp: occurrence_def name_ok_def list_all_iff)
    ultimately have "ow' = ow \<and> rp' = rp"
      using append_Cons_eq_iff[of "CHR ''/''" ow' rp' ow rp] by simp
    with w show ?thesis by simp
  qed
  have "(\<exists>pre ow rp w post. occurrence txt pre ow rp w post \<and> \<not> sublist '' -'' (tl w) \<and>
         (\<forall>pre' ow' rp' w' post'. occurrence txt pre' ow' rp' w' post' \<longrightarrow>
            length pre \<le> length pre') \<and>
         d = \<lparr>issue_type = ''github_action_failure'', repo = ow @ ''/'' @ rp, workflow = w,
               snippet = txt\<rparr>) \<longleftrightarrow> d = ?d" (is "?L \<longleftrightarrow> _")
  proof
    assume ?L
    then obtain pre' ow' rp' w' post' where o': "occurrence txt pre' ow' rp' w' post'"
      "\<not> sublist '' -'' (tl w')"
      "\<forall>p a b c e. occurrence txt p a b c e \<longrightarrow> length pre' \<le> length p"
      and d: "d = \<lparr>issue_type = ''github_action_failure'', repo = ow' @ ''/'' @ rp', workflow = w',
               snippet = txt\<rparr>" by blast
    from uniq[OF o'] d show "d = ?d" by simp
  next
    assume "d = ?d"
    with occ short first show ?L by blast
  qed
  moreover from occ have "\<exists>pre ow rp w post. occurrence txt pre ow rp w post" by blast
  ultimately show ?thesis using res by auto
qed

theorem parse_github_email_leftmost_shortest_witness:
  "fst (parse_github_email ''[a/b] Run failed: CI -main'' []) =
     Some \<lparr>issue_type = ''github_action_failure'', repo = ''a/b'', workflow = ''CI'',
           snippet = ''[a/b] Run failed: CI -main''\<rparr> \<and>
   \<not> (\<exists>pre ow rp w post. occurrence ''Random unrelated subject '' pre ow rp w post)"
proof -
  let ?t = "''[a/b] Run failed: CI -main''"
  let ?d = "\<lparr>issue_type = ''github_action_failure'', repo = ''a/b'', workflow = ''CI'',
           snippet = ?t\<rparr>"
  have occ: "occurrence ?t [] ''a'' ''b'' ''CI'' ''main''"
    by (simp add: occurrence_def failure_shape_def name_ok_def word_or_hyphen_def
        is_word_char_def dot_def)
  have short: "\<not> sublist '' -'' (tl ''CI'')"
    by (simp add: sublist_Cons_right)
  have first: "\<forall>pre' ow' rp' w' post'. occurrence ?t pre' ow' rp' w' post' \<longrightarrow>
      length ([] :: string) \<le> length pre'"
    by simp
  have d: "?d = \<lparr>issue_type = ''github_action_failure'', repo = ''a'' @ ''/'' @ ''b'',
      workflow = ''CI'', snippet = ?t\<rparr>"
    by simp
  from occ short first d
  have "\<exists>pre ow rp w post. occurrence ?t pre ow rp w post \<and> \<not> sublist '' -'' (tl w) \<and>
         (\<forall>pre' ow' rp' w' post'. occurrence ?t pre' ow' rp' w' post' \<longrightarrow>
            length pre \<le> length pre') \<and>
         ?d = \<lparr>issue_type = ''github_action_failure'', repo = ow @ ''/'' @ rp, workflow = w,
               snippet = ?t\<rparr>"
    by blast
  then have some: "fst (parse_github_email ?t []) = Some ?d"
    using parse_github_email_leftmost_shortest[of ?t "[]" ?d] by blast
  have "fst (parse_github_email ''Random unrelated subject '' []) = None"
    by (simp add: parse_github_email_def github_pattern_def search.simps)
  then have "\<not> (\<exists>pre ow rp w post. occurrence ''Random unrelated subject '' pre ow rp w post)"
    using parse_github_email_leftmost_shortest[of "''Random unrelated subject ''" "[]" ?d]
    by blast
  with some show ?thesis by blast
qed

text \<open>
  Claim C2 as the spec words it fails: a text with no space after the hyphen, and so with
  no \<^verbatim>\<open>" - "\<close> anywhere, still yields a record.
\<close>

theorem parse_github_email_no_trailing_space:
  "fst (parse_github_email ''[a/b] Run failed: CI -main'' []) =
     Some \<lparr>issue_type = ''github_action_failure'', repo = ''a/b'', workflow = ''CI'',
           snippet = ''[a/b] Run failed: CI -main''\<rparr> \<and>
   \<not> sublist '' - '' ''[a/b] Run failed: CI -main''"
  by (simp add: parse_github_email_def github_pattern_def search.simps word_or_hyphen_def
      is_word_char_def dot_def between_def sublist_Cons_right)


section \<open>Properties of the status checker\<close>

lemma status_of_runs_True_iff:
  "status_of_runs runs = Inr True \<longleftrightarrow>
     (\<exists>fields rest. runs = JArr (JObj fields # rest) \<and>
        map_of fields ''conclusion'' = Some (JStr ''success''))"
proof (cases runs)
  case (JArr xs)
  show ?thesis
  proof (cases xs)
    case Nil
    with JArr show ?thesis by (simp add: status_of_runs_def)
  next
    case (Cons x rest)
    with JArr show ?thesis
      by (cases x) (auto simp: status_of_runs_def split: option.splits)
  qed
next
  case (JStr s)
  then show ?thesis by (cases s) (simp_all add: status_of_runs_def)
qed (simp_all add: status_of_runs_def)

lemma check_workflow_status_try_events:
  "events_of (check_workflow_status_try sys r wn w) = [Call_run (gh_args r wn)]"
  by (simp add: check_workflow_status_try_def events_of_def split: prod.splits sum.splits)

lemma check_workflow_status_total:
  "\<exists>b. result_of (check_workflow_status sys r wn w) = Inr b"
  by (auto simp: check_workflow_status_def result_of_def split: prod.splits sum.splits)

lemma check_workflow_status_calls:
  "mutation_calls (events_of (check_workflow_status sys r wn w)) = [] \<and>
   status_calls (events_of (check_workflow_status sys r wn w)) = [Call_run (gh_args r wn)]"
  using check_workflow_status_try_events[of sys r wn w]
  by (auto simp: check_workflow_status_def events_of_def mutation_calls_def status_calls_def
      split: prod.splits sum.splits)

text \<open>
  Claim C1. The status checker always returns a truth value, never an exception, and the
  value is true exactly when the subprocess was started and returned with exit status
  \<open>0\<close>, its output parsed to a non-empty list whose first element is a dictionary, and
  the \<^verbatim>\<open>conclusion\<close> of that dictionary is the string \<^verbatim>\<open>success\<close>. A failure to start
  the process, any other exit status, output that does not parse, an empty list, a first
  element without that field or with another value all give false.
\<close>

theorem check_workflow_status_passing_iff:
  "result_of (check_workflow_status sys r wn w) =
     Inr (\<exists>cp w' fields rest.
            subprocess_run sys (gh_args r wn) w = (Inr cp, w') \<and> returncode cp = 0 \<and>
            json_loads sys (stdout cp) = Inr (JArr (JObj fields # rest)) \<and>
            map_of fields ''conclusion'' = Some (JStr ''success''))"
proof (cases "subprocess_run sys (gh_args r wn) w")
  case (Pair res w')
  show ?thesis
  proof (cases res)
    case (Inl e)
    with Pair show ?thesis
      by (simp add: check_workflow_status_def check_workflow_status_try_def result_of_def)
  next
    case (Inr cp)
    show ?thesis
    proof (cases "returncode cp = 0")
      case False
      with Pair Inr show ?thesis
        by (simp add: check_workflow_status_def check_workflow_status_try_def result_of_def)
    next
      case True
      show ?thesis
      proof (cases "json_loads sys (stdout cp)")
        case (Inl e)
        with Pair Inr True show ?thesis
          by (simp add: check_workflow_status_def check_workflow_status_try_def result_of_def)
      next
        case runs: (Inr runs)
        show ?thesis
        proof (cases "status_of_runs runs")
          case (Inl e)
          then have "\<not> status_of_runs runs = Inr True" by simp
          then have "\<not> (\<exists>fields rest. runs = JArr (JObj fields # rest) \<and>
              map_of fields ''conclusion'' = Some (JStr ''success''))"
            unfolding status_of_runs_True_iff .
          with Pair Inr True runs Inl show ?thesis
            by (simp add: check_workflow_status_def check_workflow_status_try_def result_of_def)
        next
          case b: (Inr b)
          have "b \<longleftrightarrow> (\<exists>fields rest. runs = JArr (JObj fields # rest) \<and>
              map_of fields ''conclusion'' = Some (JStr ''success''))"
            using status_of_runs_True_iff[of runs] b by auto
          with Pair Inr True runs b show ?thesis
            by (simp add: check_workflow_status_def check_workflow_status_try_def result_of_def)
        qed
      qed
    qed
  qed
qed

section \<open>Properties of the processing loop\<close>

subsection \<open>Evaluating the sample inputs\<close>

lemmas sample_defs = gmail_def gmail_get_def gmail_list_def gmail_modify_def next_fault_def
  sample_world_def local_system_def toy_loads_def

lemmas extract_defs = parse_github_email_def github_pattern_def search.simps
  word_or_hyphen_def is_word_char_def dot_def between_def

lemma sample_get:
  "messages_get gmail ''m1'' (sample_world out []) = (Inr failure_message, sample_world out [])"
  "messages_get gmail ''m2'' (sample_world out []) = (Inr unrelated_message, sample_world out [])"
  "messages_get gmail ''m3'' (sample_world out []) = (Inr dotted_message, sample_world out [])"
  by (simp_all add: sample_defs)

lemma sample_text:
  "message_text failure_message = ''[iberi22/domus-otec] Run failed: CI - main (c33f718) ''"
  "message_text unrelated_message = ''Random unrelated subject ''"
  "message_text dotted_message = ''[owner/repo.js] Run failed: CI - main (sha) ''"
  by (simp_all add: message_text_def message_subject_def subject_of_def failure_message_def
      unrelated_message_def dotted_message_def failure_subject_def)

lemma sample_parse:
  "fst (parse_github_email (message_text failure_message) []) =
     Some \<lparr>issue_type = ''github_action_failure'', repo = ''iberi22/domus-otec'',
           workflow = ''CI'',
           snippet = ''[iberi22/domus-otec] Run failed: CI - main (c33f718) ''\<rparr>"
  "fst (parse_github_email (message_text unrelated_message) []) = None"
  "fst (parse_github_email (message_text dotted_message) []) = None"
  unfolding sample_text by (simp_all add: extract_defs)

lemma sample_check:
  "result_of (check_workflow_status (local_system toy_loads) rp wn (sample_world ''passing'' fs))
     = Inr True"
  "result_of (check_workflow_status (local_system toy_loads) rp wn (sample_world ''failing'' fs))
     = Inr False"
  by (simp_all add: check_workflow_status_def check_workflow_status_try_def result_of_def
      status_of_runs_def sample_defs)

lemma apply_bodies:
  "apply_modify archive_body ls = ls - {''INBOX''}"
  "apply_modify mark_read_body ls = ls - {''UNREAD''}"
  by (simp_all add: apply_modify_def archive_body_def mark_read_body_def)

lemma sample_turn_labels:
  "map_option labelIds (stored (world_of (process_one (local_system toy_loads) gmail ''m1''
       (sample_world ''passing'' []))) ''m1'') = Some {''UNREAD''}"
  "map_option labelIds (stored (world_of (process_one (local_system toy_loads) gmail ''m1''
       (sample_world ''failing'' []))) ''m1'') = Some {''INBOX''}"
  "map_option labelIds (stored (world_of (process_one (local_system toy_loads) gmail ''m2''
       (sample_world ''passing'' []))) ''m2'') = Some {''INBOX''}"
proof -
  have p: "parse_github_email (message_text failure_message) [] =
      (Some \<lparr>issue_type = ''github_action_failure'', repo = ''iberi22/domus-otec'',
           workflow = ''CI'',
           snippet = ''[iberi22/domus-otec] Run failed: CI - main (c33f718) ''\<rparr>,
       [Info_Detected ''iberi22/domus-otec'' ''CI''])"
    "parse_github_email (message_text unrelated_message) [] = (None, [])"
    unfolding sample_text by (simp_all add: extract_defs)
  have c: "check_workflow_status (local_system toy_loads) rp wn (sample_world ''passing'' []) =
      (Inr True, [Call_run (gh_args rp wn)], sample_world ''passing'' [])"
    "check_workflow_status (local_system toy_loads) rp wn (sample_world ''failing'' []) =
      (Inr False, [Call_run (gh_args rp wn)], sample_world ''failing'' [])" for rp wn
    by (simp_all add: check_workflow_status_def check_workflow_status_try_def status_of_runs_def
        sample_defs)
  show "map_option labelIds (stored (world_of (process_one (local_system toy_loads) gmail ''m1''
       (sample_world ''passing'' []))) ''m1'') = Some {''UNREAD''}"
    by (simp add: process_one_def act_on_def sample_get p c world_of_def split: prod.splits)
      (auto simp: archive_message_def sample_defs apply_bodies)
  show "map_option labelIds (stored (world_of (process_one (local_system toy_loads) gmail ''m1''
       (sample_world ''failing'' []))) ''m1'') = Some {''INBOX''}"
    by (simp add: process_one_def act_on_def sample_get p c world_of_def split: prod.splits)
      (auto simp: mark_as_read_def sample_defs apply_bodies)
  show "map_option labelIds (stored (world_of (process_one (local_system toy_loads) gmail ''m2''
       (sample_world ''passing'' []))) ''m2'') = Some {''INBOX''}"
    by (simp add: process_one_def act_on_def sample_get p c world_of_def split: prod.splits)
      (auto simp: mark_as_read_def sample_defs apply_bodies)
qed

subsection \<open>The calls of one turn\<close>

lemma mark_as_read_calls:
  "mutation_calls (events_of (mark_as_read srv mid w)) = [Call_modify mid mark_read_body] \<and>
   status_calls (events_of (mark_as_read srv mid w)) = []"
  by (simp add: mark_as_read_def events_of_def mutation_calls_def status_calls_def
      split: prod.splits sum.splits exn.splits)

lemma archive_message_calls:
  "mutation_calls (events_of (archive_message srv mid w)) = [Call_modify mid archive_body] \<and>
   status_calls (events_of (archive_message srv mid w)) = []"
  by (simp add: archive_message_def events_of_def mutation_calls_def status_calls_def
      split: prod.splits sum.splits exn.splits)

lemma calls_append:
  "mutation_calls (xs @ ys) = mutation_calls xs @ mutation_calls ys"
  "status_calls (xs @ ys) = status_calls xs @ status_calls ys"
  by (simp_all add: mutation_calls_def status_calls_def)

lemma calls_Log:
  "mutation_calls (Log l # xs) = mutation_calls xs"
  "status_calls (Log l # xs) = status_calls xs"
  "mutation_calls (map Log ls) = []"
  "status_calls (map Log ls) = []"
  "mutation_calls [] = []"
  "status_calls [] = []"
  by (simp_all add: mutation_calls_def status_calls_def)

lemma calls_get:
  "mutation_calls (Call_get m # xs) = mutation_calls xs"
  "status_calls (Call_get m # xs) = status_calls xs"
  by (simp_all add: mutation_calls_def status_calls_def)

lemma act_on_None_calls:
  "mutation_calls (events_of (act_on sys srv mid None w)) = [Call_modify mid mark_read_body] \<and>
   status_calls (events_of (act_on sys srv mid None w)) = []"
proof (cases "mark_as_read srv mid w")
  case (fields r evs w'')
  with mark_as_read_calls[of srv mid w] show ?thesis
    by (simp add: act_on_def events_of_def calls_Log)
qed

lemma act_on_Some_calls:
  "status_calls (events_of (act_on sys srv mid (Some d) w)) =
     [Call_run (gh_args (repo d) (workflow d))] \<and>
   mutation_calls (events_of (act_on sys srv mid (Some d) w)) =
     (case result_of (check_workflow_status sys (repo d) (workflow d) w) of
        Inr True \<Rightarrow> [Call_modify mid archive_body]
      | Inr False \<Rightarrow> [Call_modify mid mark_read_body]
      | Inl e \<Rightarrow> [])"
proof (cases "check_workflow_status sys (repo d) (workflow d) w")
  case (fields res evs w')
  note c = check_workflow_status_calls[of sys "repo d" "workflow d" w, unfolded fields]
  show ?thesis
  proof (cases res)
    case (Inl e)
    with fields c show ?thesis by (simp add: act_on_def events_of_def result_of_def)
  next
    case (Inr b)
    show ?thesis
    proof (cases b)
      case True
      obtain r evs' w'' where a: "archive_message srv mid w' = (r, evs', w'')"
        by (cases "archive_message srv mid w'")
      with fields Inr True c archive_message_calls[of srv mid w'] show ?thesis
        by (simp add: act_on_def events_of_def result_of_def calls_append calls_Log)
    next
      case False
      obtain r evs' w'' where a: "mark_as_read srv mid w' = (r, evs', w'')"
        by (cases "mark_as_read srv mid w'")
      with fields Inr False c mark_as_read_calls[of srv mid w'] show ?thesis
        by (simp add: act_on_def events_of_def result_of_def calls_append calls_Log)
    qed
  qed
qed

lemma process_one_fetched:
  assumes "messages_get srv mid w = (Inr msg, w1)"
  shows "mutation_calls (events_of (process_one sys srv mid w)) =
           mutation_calls (events_of (act_on sys srv mid
             (fst (parse_github_email (message_text msg) [])) w1)) \<and>
         status_calls (events_of (process_one sys srv mid w)) =
           status_calls (events_of (act_on sys srv mid
             (fst (parse_github_email (message_text msg) [])) w1))"
  using assms
  by (simp add: process_one_def events_of_def calls_append calls_Log calls_get
      split: prod.splits)

text \<open>
  Claim C3. For a message that was fetched: when the extractor finds no record, the only
  mailbox mutation of the turn is one mark-read call and the status checker is not
  called; when it finds a record, the status checker is called once for the repository
  and workflow of the record, and the only mutation of the turn is the archive call
  (remove \<^verbatim>\<open>INBOX\<close>) if the checker answers true and the mark-read call (remove
  \<^verbatim>\<open>UNREAD\<close>) if it answers false.
\<close>

theorem process_one_dispatch:
  assumes "messages_get srv mid w = (Inr msg, w1)"
  shows "(fst (parse_github_email (message_text msg) []) = None \<longrightarrow>
            mutation_calls (events_of (process_one sys srv mid w)) =
              [Call_modify mid mark_read_body] \<and>
            status_calls (events_of (process_one sys srv mid w)) = []) \<and>
         (\<forall>d. fst (parse_github_email (message_text msg) []) = Some d \<longrightarrow>
            status_calls (events_of (process_one sys srv mid w)) =
              [Call_run (gh_args (repo d) (workflow d))] \<and>
            (result_of (check_workflow_status sys (repo d) (workflow d) w1) = Inr True \<longrightarrow>
               mutation_calls (events_of (process_one sys srv mid w)) =
                 [Call_modify mid archive_body]) \<and>
            (result_of (check_workflow_status sys (repo d) (workflow d) w1) = Inr False \<longrightarrow>
               mutation_calls (events_of (process_one sys srv mid w)) =
                 [Call_modify mid mark_read_body]))"
  using process_one_fetched[OF assms, of sys] act_on_None_calls[of sys srv mid w1]
    act_on_Some_calls[of sys srv mid _ w1]
  by simp

theorem process_one_dispatch_witness:
  "mutation_calls (events_of (process_one (local_system toy_loads) gmail ''m2''
       (sample_world ''passing'' []))) = [Call_modify ''m2'' mark_read_body] \<and>
   status_calls (events_of (process_one (local_system toy_loads) gmail ''m2''
       (sample_world ''passing'' []))) = [] \<and>
   mutation_calls (events_of (process_one (local_system toy_loads) gmail ''m1''
       (sample_world ''passing'' []))) = [Call_modify ''m1'' archive_body] \<and>
   mutation_calls (events_of (process_one (local_system toy_loads) gmail ''m1''
       (sample_world ''failing'' []))) = [Call_modify ''m1'' mark_read_body] \<and>
   map_option labelIds (stored (world_of (process_one (local_system toy_loads) gmail ''m1''
       (sample_world ''passing'' []))) ''m1'') = Some {''UNREAD''} \<and>
   map_option labelIds (stored (world_of (process_one (local_system toy_loads) gmail ''m1''
       (sample_world ''failing'' []))) ''m1'') = Some {''INBOX''}"
  using process_one_dispatch[OF sample_get(2), of "local_system toy_loads" "''passing''"]
    process_one_dispatch[OF sample_get(1), of "local_system toy_loads" "''passing''"]
    process_one_dispatch[OF sample_get(1), of "local_system toy_loads" "''failing''"]
  by (simp add: sample_parse sample_check sample_turn_labels)

subsection \<open>The dry-run flag\<close>

text \<open>
  Claim C4. A run with \<^verbatim>\<open>--dry-run\<close> and a run without it, from the same state of the
  world, end with the same result and in the same state and make the same mutation
  calls: the events of the first are those of the second with one log line added after
  the first.
\<close>

theorem dry_run_gates_nothing:
  "result_of (main (a\<lparr>dry_run := True\<rparr>) auth sys w) =
     result_of (main (a\<lparr>dry_run := False\<rparr>) auth sys w) \<and>
   world_of (main (a\<lparr>dry_run := True\<rparr>) auth sys w) =
     world_of (main (a\<lparr>dry_run := False\<rparr>) auth sys w) \<and>
   events_of (main (a\<lparr>dry_run := True\<rparr>) auth sys w) =
     Log (Info_Starting (max_emails a)) # Log Info_DryRunMode #
     tl (events_of (main (a\<lparr>dry_run := False\<rparr>) auth sys w)) \<and>
   mutation_calls (events_of (main (a\<lparr>dry_run := True\<rparr>) auth sys w)) =
     mutation_calls (events_of (main (a\<lparr>dry_run := False\<rparr>) auth sys w))"
  by (simp add: main_def result_of_def world_of_def events_of_def calls_Log
      split: prod.splits option.splits)

subsection \<open>A failing list query\<close>

text \<open>
  Claim C5, as the code has it. When the list query raises an \<^verbatim>\<open>HttpError\<close> the run
  consists of the query and one error line in the log: no message is fetched, no status
  is checked, nothing is modified, and \<^verbatim>\<open>process_messages\<close> returns normally. When
  the query raises any other exception, again nothing is fetched, checked or modified,
  but nothing is logged and the exception leaves \<^verbatim>\<open>process_messages\<close>.
\<close>

theorem list_failure_aborts_run:
  "(messages_list srv query w = (Inl (HttpError err), w') \<longrightarrow>
      process_messages sys srv w =
        (Inr (), [Call_list query, Log (Error_ProcessingMessages err)], w')) \<and>
   (messages_list srv query w = (Inl (OtherException e), w') \<longrightarrow>
      process_messages sys srv w = (Inl (OtherException e), [Call_list query], w'))"
  by (simp add: process_messages_def process_messages_try_def)

theorem list_failure_aborts_run_witness:
  "process_messages (local_system toy_loads) gmail
       (sample_world ''passing'' [Some (HttpError ''500'')]) =
     (Inr (), [Call_list query, Log (Error_ProcessingMessages ''500'')],
      sample_world ''passing'' []) \<and>
   process_messages (local_system toy_loads) gmail
       (sample_world ''passing'' [Some (OtherException ''ServerNotFoundError'')]) =
     (Inl (OtherException ''ServerNotFoundError''), [Call_list query],
      sample_world ''passing'' [])"
proof -
  have "messages_list gmail query (sample_world ''passing'' [Some (HttpError ''500'')]) =
      (Inl (HttpError ''500''), sample_world ''passing'' [])"
    and "messages_list gmail query
        (sample_world ''passing'' [Some (OtherException ''ServerNotFoundError'')]) =
      (Inl (OtherException ''ServerNotFoundError''), sample_world ''passing'' [])"
    by (simp_all add: sample_defs)
  then show ?thesis
    using list_failure_aborts_run[of gmail "sample_world ''passing'' [Some (HttpError ''500'')]"
        "''500''" "sample_world ''passing'' []" "local_system toy_loads"]
      list_failure_aborts_run[of gmail
        "sample_world ''passing'' [Some (OtherException ''ServerNotFoundError'')]"
        _ "sample_world ''passing'' []" "local_system toy_loads" "''ServerNotFoundError''"]
    by blast
qed

text \<open>
  Claim C5 as the spec words it fails for a transport error, which the client library
  does not raise as an \<^verbatim>\<open>HttpError\<close>: the handler of line 164 lets it pass, unlogged.
\<close>

theorem transport_error_propagates:
  "process_messages (local_system toy_loads) gmail
       (sample_world ''passing'' [Some (OtherException ''ServerNotFoundError'')]) =
     (Inl (OtherException ''ServerNotFoundError''), [Call_list query],
      sample_world ''passing'' [])"
  by (simp add: process_messages_def process_messages_try_def sample_defs)


section \<open>Properties of the mailbox mutations\<close>

lemma gmail_modify_stored:
  "stored (snd (gmail_modify mid b w)) k =
     map_option (\<lambda>sm. if k = mid \<and> served w
                       then sm\<lparr>labelIds := apply_modify b (labelIds sm)\<rparr> else sm)
       (stored w k)"
proof (cases "faults w")
  case Nil
  then show ?thesis
    by (cases "stored w mid"; cases "stored w k")
      (auto simp: gmail_modify_def next_fault_def served_def)
next
  case (Cons f fs)
  then show ?thesis
    by (cases f; cases "stored w mid"; cases "stored w k")
      (auto simp: gmail_modify_def next_fault_def served_def)
qed

lemma world_of_mark_as_read:
  "world_of (mark_as_read srv mid w) = snd (messages_modify srv mid mark_read_body w)"
  by (simp add: mark_as_read_def world_of_def split: prod.splits sum.splits exn.splits)

lemma world_of_archive_message:
  "world_of (archive_message srv mid w) = snd (messages_modify srv mid archive_body w)"
  by (simp add: archive_message_def world_of_def split: prod.splits sum.splits exn.splits)

lemma gmail_sel:
  "messages_modify gmail = gmail_modify" "messages_get gmail = gmail_get"
  "messages_list gmail = gmail_list"
  by (simp_all add: gmail_def)

lemma archive_message_stored:
  "stored (world_of (archive_message gmail mid w)) k =
     map_option (\<lambda>sm. if k = mid \<and> served w
                       then sm\<lparr>labelIds := labelIds sm - {''INBOX''}\<rparr> else sm)
       (stored w k)"
  by (simp add: world_of_archive_message gmail_sel gmail_modify_stored apply_bodies cong: if_cong)

lemma mark_as_read_stored:
  "stored (world_of (mark_as_read gmail mid w)) k =
     map_option (\<lambda>sm. if k = mid \<and> served w
                       then sm\<lparr>labelIds := labelIds sm - {''UNREAD''}\<rparr> else sm)
       (stored w k)"
  by (simp add: world_of_mark_as_read gmail_sel gmail_modify_stored apply_bodies cong: if_cong)

lemma only_removed_refl: "only_removed ls w w"
  unfolding only_removed_def
proof
  fix k
  have "stored w k = map_option (\<lambda>sm. sm\<lparr>labelIds := labelIds sm - {}\<rparr>) (stored w k)"
    by (cases "stored w k") simp_all
  then show "\<exists>r. r \<subseteq> ls \<and>
      stored w k = map_option (\<lambda>sm. sm\<lparr>labelIds := labelIds sm - r\<rparr>) (stored w k)"
    by (intro exI[of _ "{}"] conjI empty_subsetI)
qed

lemma only_removed_same: "stored w' = stored w \<Longrightarrow> only_removed ls w w'"
  using only_removed_refl[of ls w] by (simp add: only_removed_def)

lemma only_removed_trans:
  assumes "only_removed ls w w'" "only_removed ls w' w''"
  shows "only_removed ls w w''"
  unfolding only_removed_def
proof
  fix k
  from assms(1) obtain r1 where r1: "r1 \<subseteq> ls"
    "stored w' k = map_option (\<lambda>sm. sm\<lparr>labelIds := labelIds sm - r1\<rparr>) (stored w k)"
    unfolding only_removed_def by blast
  from assms(2) obtain r2 where r2: "r2 \<subseteq> ls"
    "stored w'' k = map_option (\<lambda>sm. sm\<lparr>labelIds := labelIds sm - r2\<rparr>) (stored w' k)"
    unfolding only_removed_def by blast
  have "stored w'' k = map_option (\<lambda>sm. sm\<lparr>labelIds := labelIds sm - (r1 \<union> r2)\<rparr>) (stored w k)"
    unfolding r2(2) r1(2) by (cases "stored w k") (simp_all add: Diff_eq Int_assoc)
  moreover have "r1 \<union> r2 \<subseteq> ls" using r1(1) r2(1) by simp
  ultimately show "\<exists>r. r \<subseteq> ls \<and>
      stored w'' k = map_option (\<lambda>sm. sm\<lparr>labelIds := labelIds sm - r\<rparr>) (stored w k)"
    by (intro exI[of _ "r1 \<union> r2"] conjI)
qed

lemma only_removed_one:
  assumes "l \<in> ls"
    and "\<And>k. stored w' k = map_option (\<lambda>sm. if k = mid \<and> c
                       then sm\<lparr>labelIds := labelIds sm - {l}\<rparr> else sm) (stored w k)"
  shows "only_removed ls w w'"
  unfolding only_removed_def
proof
  fix k
  let ?r = "if k = mid \<and> c then {l} else {}"
  have "stored w' k = map_option (\<lambda>sm. sm\<lparr>labelIds := labelIds sm - ?r\<rparr>) (stored w k)"
    unfolding assms(2) by (cases "stored w k") simp_all
  moreover have "?r \<subseteq> ls" using assms(1) by simp
  ultimately show "\<exists>r. r \<subseteq> ls \<and>
      stored w' k = map_option (\<lambda>sm. sm\<lparr>labelIds := labelIds sm - r\<rparr>) (stored w k)"
    by (intro exI[of _ ?r] conjI)
qed

lemma only_removed_archive:
  "only_removed {''INBOX'', ''UNREAD''} w (world_of (archive_message gmail mid w))"
  by (rule only_removed_one[where l = "''INBOX''" and c = "served w" and mid = mid])
    (simp_all add: archive_message_stored)

lemma only_removed_mark:
  "only_removed {''INBOX'', ''UNREAD''} w (world_of (mark_as_read gmail mid w))"
  by (rule only_removed_one[where l = "''UNREAD''" and c = "served w" and mid = mid])
    (simp_all add: mark_as_read_stored)

lemma check_workflow_status_local:
  "world_of (check_workflow_status (local_system loads) rp wn w) = w"
  by (simp add: check_workflow_status_def check_workflow_status_try_def local_system_def
      world_of_def split: prod.splits sum.splits)

lemma gmail_get_stored: "stored (snd (gmail_get mid w)) = stored w"
  by (auto simp: gmail_get_def next_fault_def split: list.splits option.splits)

lemma gmail_list_stored: "stored (snd (gmail_list q w)) = stored w"
  by (auto simp: gmail_list_def next_fault_def split: list.splits option.splits)

lemma only_removed_act_on:
  "only_removed {''INBOX'', ''UNREAD''} w (world_of (act_on (local_system loads) gmail mid issue w))"
proof (cases issue)
  case None
  obtain r evs w' where m: "mark_as_read gmail mid w = (r, evs, w')"
    by (cases "mark_as_read gmail mid w")
  with only_removed_mark[of w mid] None show ?thesis
    by (simp add: act_on_def world_of_def)
next
  case (Some d)
  obtain res evs w' where c: "check_workflow_status (local_system loads) (repo d) (workflow d) w
      = (res, evs, w')"
    by (cases "check_workflow_status (local_system loads) (repo d) (workflow d) w")
  with check_workflow_status_local[of loads "repo d" "workflow d" w] have w': "w' = w"
    by (simp add: world_of_def)
  show ?thesis
  proof (cases res)
    case (Inl e)
    with Some c w' show ?thesis
      by (simp add: act_on_def world_of_def only_removed_refl)
  next
    case (Inr b)
    obtain r1 e1 w1 where a: "archive_message gmail mid w = (r1, e1, w1)"
      by (cases "archive_message gmail mid w")
    obtain r2 e2 w2 where m: "mark_as_read gmail mid w = (r2, e2, w2)"
      by (cases "mark_as_read gmail mid w")
    from only_removed_archive[of w mid] only_removed_mark[of w mid] Some c w' Inr a m
    show ?thesis
      by (simp add: act_on_def world_of_def)
  qed
qed

lemma only_removed_process_one:
  "only_removed {''INBOX'', ''UNREAD''} w
     (world_of (process_one (local_system loads) gmail mid w))"
proof (cases "gmail_get mid w")
  case (Pair res w1)
  with gmail_get_stored[of mid w] have s: "stored w1 = stored w" by simp
  show ?thesis
  proof (cases res)
    case (Inl e)
    with Pair s show ?thesis
      by (simp add: process_one_def gmail_sel world_of_def only_removed_same)
  next
    case (Inr msg)
    obtain issue evp where p: "parse_github_email (message_text msg) [] = (issue, evp)"
      by (cases "parse_github_email (message_text msg) []")
    obtain r evs w2 where a: "act_on (local_system loads) gmail mid issue w1 = (r, evs, w2)"
      by (cases "act_on (local_system loads) gmail mid issue w1")
    from only_removed_act_on[of w1 loads mid issue] a
    have "only_removed {''INBOX'', ''UNREAD''} w1 w2" by (simp add: world_of_def)
    with only_removed_same[OF s] have "only_removed {''INBOX'', ''UNREAD''} w w2"
      by (rule only_removed_trans)
    with Pair Inr p a show ?thesis
      by (simp add: process_one_def gmail_sel world_of_def)
  qed
qed

lemma only_removed_process_loop:
  "only_removed {''INBOX'', ''UNREAD''} w
     (world_of (process_loop (local_system loads) gmail mids w))"
proof (induction mids arbitrary: w)
  case Nil
  show ?case by (simp add: world_of_def only_removed_refl)
next
  case (Cons mid mids)
  obtain r evs w1 where p: "process_one (local_system loads) gmail mid w = (r, evs, w1)"
    by (cases "process_one (local_system loads) gmail mid w")
  with only_removed_process_one[of w loads mid]
  have one: "only_removed {''INBOX'', ''UNREAD''} w w1" by (simp add: world_of_def)
  show ?case
  proof (cases r)
    case (Inl e)
    with p one show ?thesis by (simp add: world_of_def)
  next
    case (Inr u)
    obtain r' evs' w2 where l: "process_loop (local_system loads) gmail mids w1 = (r', evs', w2)"
      by (cases "process_loop (local_system loads) gmail mids w1")
    with Cons.IH[of w1] have "only_removed {''INBOX'', ''UNREAD''} w1 w2"
      by (simp add: world_of_def)
    with one have "only_removed {''INBOX'', ''UNREAD''} w w2" by (rule only_removed_trans)
    with p Inr l show ?thesis by (simp add: world_of_def)
  qed
qed

lemma world_of_process_messages:
  "world_of (process_messages sys srv w) = world_of (process_messages_try sys srv w)"
  by (simp add: process_messages_def world_of_def split: prod.splits sum.splits exn.splits)

lemma only_removed_process_messages_try:
  "only_removed {''INBOX'', ''UNREAD''} w
     (world_of (process_messages_try (local_system loads) gmail w))"
proof (cases "gmail_list query w")
  case (Pair res w1)
  with gmail_list_stored[of query w] have s: "stored w1 = stored w" by simp
  show ?thesis
  proof (cases res)
    case (Inl e)
    with Pair s show ?thesis
      by (simp add: process_messages_try_def gmail_sel world_of_def only_removed_same)
  next
    case (Inr results)
    show ?thesis
    proof (cases "case results of None \<Rightarrow> [] | Some ms \<Rightarrow> ms")
      case Nil
      with Pair Inr s show ?thesis
        by (simp add: process_messages_try_def gmail_sel world_of_def only_removed_same)
    next
      case (Cons m ms)
      obtain r evs w2 where l: "process_loop (local_system loads) gmail (m # ms) w1 = (r, evs, w2)"
        by (cases "process_loop (local_system loads) gmail (m # ms) w1")
      with only_removed_process_loop[of w1 loads "m # ms"]
      have "only_removed {''INBOX'', ''UNREAD''} w1 w2" by (simp add: world_of_def)
      with only_removed_same[OF s] have "only_removed {''INBOX'', ''UNREAD''} w w2"
        by (rule only_removed_trans)
      with Pair Inr Cons l show ?thesis
        by (simp add: process_messages_try_def gmail_sel world_of_def)
    qed
  qed
qed

lemma only_removed_process_messages:
  "only_removed {''INBOX'', ''UNREAD''} w
     (world_of (process_messages (local_system loads) gmail w))"
  unfolding world_of_process_messages by (rule only_removed_process_messages_try)

subsection \<open>The mutation calls of a run\<close>

lemma removal_act_on:
  "list_all is_label_removal (mutation_calls (events_of (act_on sys srv mid issue w)))"
proof (cases issue)
  case None
  then show ?thesis using act_on_None_calls[of sys srv mid w] by simp
next
  case (Some d)
  then show ?thesis using act_on_Some_calls[of sys srv mid d w]
    by (simp split: sum.splits bool.splits)
qed

lemma removal_process_one:
  "list_all is_label_removal (mutation_calls (events_of (process_one sys srv mid w)))"
proof (cases "messages_get srv mid w")
  case (Pair res w1)
  show ?thesis
  proof (cases res)
    case (Inl e)
    with Pair show ?thesis
      by (simp add: process_one_def events_of_def mutation_calls_def)
  next
    case (Inr msg)
    with Pair process_one_fetched[of srv mid w msg w1 sys] removal_act_on[of sys srv mid _ w1]
    show ?thesis by simp
  qed
qed

lemma removal_process_loop:
  "list_all is_label_removal (mutation_calls (events_of (process_loop sys srv mids w)))"
proof (induction mids arbitrary: w)
  case Nil
  show ?case by (simp add: events_of_def mutation_calls_def)
next
  case (Cons mid mids)
  obtain r evs w1 where p: "process_one sys srv mid w = (r, evs, w1)"
    by (cases "process_one sys srv mid w")
  with removal_process_one[of sys srv mid w]
  have one: "list_all is_label_removal (mutation_calls evs)" by (simp add: events_of_def)
  show ?case
  proof (cases r)
    case (Inl e)
    with p one show ?thesis by (simp add: events_of_def)
  next
    case (Inr u)
    obtain r' evs' w2 where l: "process_loop sys srv mids w1 = (r', evs', w2)"
      by (cases "process_loop sys srv mids w1")
    with Cons.IH[of w1] have "list_all is_label_removal (mutation_calls evs')"
      by (simp add: events_of_def)
    with p Inr l one show ?thesis by (simp add: events_of_def calls_append)
  qed
qed

lemma removal_process_messages_try:
  "list_all is_label_removal (mutation_calls (events_of (process_messages_try sys srv w)))"
proof (cases "messages_list srv query w")
  case (Pair res w1)
  show ?thesis
  proof (cases res)
    case (Inl e)
    with Pair show ?thesis
      by (simp add: process_messages_try_def events_of_def mutation_calls_def)
  next
    case (Inr results)
    show ?thesis
    proof (cases "case results of None \<Rightarrow> [] | Some ms \<Rightarrow> ms")
      case Nil
      with Pair Inr show ?thesis
        by (simp add: process_messages_try_def events_of_def mutation_calls_def)
    next
      case (Cons m ms)
      obtain r evs w2 where l: "process_loop sys srv (m # ms) w1 = (r, evs, w2)"
        by (cases "process_loop sys srv (m # ms) w1")
      with removal_process_loop[of sys srv "m # ms" w1]
      have "list_all is_label_removal (mutation_calls evs)" by (simp add: events_of_def)
      with Pair Inr Cons l show ?thesis
        by (simp add: process_messages_try_def events_of_def mutation_calls_def)
    qed
  qed
qed

lemma removal_process_messages:
  "list_all is_label_removal (mutation_calls (events_of (process_messages sys srv w)))"
proof -
  obtain r evs w' where t: "process_messages_try sys srv w = (r, evs, w')"
    by (cases "process_messages_try sys srv w")
  with removal_process_messages_try[of sys srv w]
  have "list_all is_label_removal (mutation_calls evs)" by (simp add: events_of_def)
  with t show ?thesis
    by (simp add: process_messages_def events_of_def calls_append calls_Log
        split: sum.splits exn.splits)
qed

text \<open>
  Claim C6. Every mutation call of a run of \<^verbatim>\<open>process_messages\<close>, on any service, asks
  for the removal of \<^verbatim>\<open>INBOX\<close> or of \<^verbatim>\<open>UNREAD\<close> and adds nothing. On the mailbox,
  \<^verbatim>\<open>archive_message\<close> changes at most the message it names, and of that message only
  the label set, from which it takes \<^verbatim>\<open>INBOX\<close> when the call is served;
  \<^verbatim>\<open>mark_as_read\<close> does the same with \<^verbatim>\<open>UNREAD\<close>, so it leaves \<^verbatim>\<open>INBOX\<close> as it
  was. Over a whole run every message keeps its content, and its labels but for
  \<^verbatim>\<open>INBOX\<close> and \<^verbatim>\<open>UNREAD\<close>; no message appears or disappears.
\<close>

theorem mutations_only_remove_labels:
  "list_all is_label_removal (mutation_calls (events_of (process_messages sys srv v))) \<and>
   stored (world_of (archive_message gmail mid w)) k =
     map_option (\<lambda>sm. if k = mid \<and> served w
                       then sm\<lparr>labelIds := labelIds sm - {''INBOX''}\<rparr> else sm)
       (stored w k) \<and>
   stored (world_of (mark_as_read gmail mid w)) k =
     map_option (\<lambda>sm. if k = mid \<and> served w
                       then sm\<lparr>labelIds := labelIds sm - {''UNREAD''}\<rparr> else sm)
       (stored w k) \<and>
   only_removed {''INBOX'', ''UNREAD''} w
     (world_of (process_messages (local_system loads) gmail w))"
  by (intro conjI removal_process_messages archive_message_stored mark_as_read_stored
      only_removed_process_messages)

text \<open>
  Claim C7. Removing \<^verbatim>\<open>INBOX\<close> twice from a label set gives what removing it once
  gives, and so for \<^verbatim>\<open>UNREAD\<close>. On the mailbox, when the first call is served,
  \<^verbatim>\<open>archive_message\<close> called twice on a message id leaves the messages as one call
  leaves them, and so does \<^verbatim>\<open>mark_as_read\<close>.
\<close>

theorem mutations_idempotent:
  "apply_modify archive_body (apply_modify archive_body ls) = apply_modify archive_body ls \<and>
   apply_modify mark_read_body (apply_modify mark_read_body ls) =
     apply_modify mark_read_body ls \<and>
   (served w \<longrightarrow>
      stored (world_of (archive_message gmail mid (world_of (archive_message gmail mid w)))) =
        stored (world_of (archive_message gmail mid w)) \<and>
      stored (world_of (mark_as_read gmail mid (world_of (mark_as_read gmail mid w)))) =
        stored (world_of (mark_as_read gmail mid w)))"
proof (intro conjI impI)
  show "apply_modify archive_body (apply_modify archive_body ls) = apply_modify archive_body ls"
    by (simp add: apply_bodies)
  show "apply_modify mark_read_body (apply_modify mark_read_body ls) =
     apply_modify mark_read_body ls"
    by (simp add: apply_bodies)
next
  assume s: "served w"
  show "stored (world_of (archive_message gmail mid (world_of (archive_message gmail mid w)))) =
        stored (world_of (archive_message gmail mid w))"
  proof
    fix k
    show "stored (world_of (archive_message gmail mid (world_of (archive_message gmail mid w)))) k =
        stored (world_of (archive_message gmail mid w)) k"
      unfolding archive_message_stored[of mid "world_of (archive_message gmail mid w)" k]
      unfolding archive_message_stored[of mid w k]
      using s by (cases "stored w k") simp_all
  qed
next
  assume s: "served w"
  show "stored (world_of (mark_as_read gmail mid (world_of (mark_as_read gmail mid w)))) =
        stored (world_of (mark_as_read gmail mid w))"
  proof
    fix k
    show "stored (world_of (mark_as_read gmail mid (world_of (mark_as_read gmail mid w)))) k =
        stored (world_of (mark_as_read gmail mid w)) k"
      unfolding mark_as_read_stored[of mid "world_of (mark_as_read gmail mid w)" k]
      unfolding mark_as_read_stored[of mid w k]
      using s by (cases "stored w k") simp_all
  qed
qed

lemma sample_served: "served (sample_world out [])"
  by (simp add: served_def sample_world_def)

theorem mutations_idempotent_witness:
  "served (sample_world ''passing'' []) \<and>
   stored (world_of (archive_message gmail ''m1''
       (world_of (archive_message gmail ''m1'' (sample_world ''passing'' []))))) =
     stored (world_of (archive_message gmail ''m1'' (sample_world ''passing'' []))) \<and>
   stored (world_of (mark_as_read gmail ''m1''
       (world_of (mark_as_read gmail ''m1'' (sample_world ''passing'' []))))) =
     stored (world_of (mark_as_read gmail ''m1'' (sample_world ''passing'' []))) \<and>
   map_option labelIds
     (stored (world_of (archive_message gmail ''m1'' (sample_world ''passing'' []))) ''m1'') =
     Some {''UNREAD''}"
proof -
  have "map_option labelIds
     (stored (world_of (archive_message gmail ''m1'' (sample_world ''passing'' []))) ''m1'') =
     Some {''UNREAD''}"
    unfolding archive_message_stored
    by (auto simp: sample_world_def served_def)
  with sample_served[of "''passing''"]
    mutations_idempotent[of "{}" "sample_world ''passing'' []" "''m1''"]
  show ?thesis by blast
qed

section \<open>Failures inside the loop\<close>

subsection \<open>The sample mailbox under a schedule of exceptions\<close>

lemma sample_get_next:
  "messages_get gmail ''m1'' (sample_world out (None # fs)) =
     (Inr failure_message, sample_world out fs)"
  "messages_get gmail ''m2'' (sample_world out (None # fs)) =
     (Inr unrelated_message, sample_world out fs)"
  "messages_get gmail ''m3'' (sample_world out (None # fs)) =
     (Inr dotted_message, sample_world out fs)"
  by (simp_all add: sample_defs)

lemma sample_fault:
  "messages_get gmail mid (sample_world out (Some e # fs)) = (Inl e, sample_world out fs)"
  "messages_modify gmail mid b (sample_world out (Some e # fs)) = (Inl e, sample_world out fs)"
  by (simp_all add: sample_defs)

lemma sample_parse_pair:
  "parse_github_email (message_text failure_message) [] =
     (Some \<lparr>issue_type = ''github_action_failure'', repo = ''iberi22/domus-otec'',
           workflow = ''CI'',
           snippet = ''[iberi22/domus-otec] Run failed: CI - main (c33f718) ''\<rparr>,
      [Info_Detected ''iberi22/domus-otec'' ''CI''])"
  unfolding sample_text by (simp add: extract_defs)

lemma sample_check_run:
  "check_workflow_status (local_system toy_loads) rp wn (sample_world ''passing'' fs) =
     (Inr True, [Call_run (gh_args rp wn)], sample_world ''passing'' fs)"
  "check_workflow_status (local_system toy_loads) rp wn (sample_world ''failing'' fs) =
     (Inr False, [Call_run (gh_args rp wn)], sample_world ''failing'' fs)"
  by (simp_all add: check_workflow_status_def check_workflow_status_try_def status_of_runs_def
      sample_defs)

lemma sample_subject:
  "message_subject failure_message = failure_subject"
  "message_subject unrelated_message = ''Random unrelated subject''"
  by (simp_all add: message_subject_def subject_of_def failure_message_def
      unrelated_message_def)

lemma sample_list:
  "messages_list gmail query (sample_world out (None # fs)) =
     (Inr (Some [''m1'', ''m2'']), sample_world out fs)"
  by (simp add: sample_defs)

lemma sample_loop_m1:
  "process_loop (local_system toy_loads) gmail [''m1'']
       (sample_world ''passing'' (None # None # fs)) =
     (Inr (),
      [Call_get ''m1'', Log (Info_Processing failure_subject),
       Log (Info_Detected ''iberi22/domus-otec'' ''CI''),
       Call_run (gh_args ''iberi22/domus-otec'' ''CI''),
       Log (Info_AlreadyPassing ''CI''),
       Call_modify ''m1'' archive_body, Log (Info_Archived ''m1'')],
      (sample_world ''passing'' fs)
        \<lparr>stored := (stored (sample_world ''passing'' []))
           (''m1'' \<mapsto> \<lparr>content = failure_message, labelIds = {''UNREAD''}\<rparr>)\<rparr>)"
proof -
  have a: "archive_message gmail ''m1'' (sample_world ''passing'' (None # fs)) =
      (Inr (), [Call_modify ''m1'' archive_body, Log (Info_Archived ''m1'')],
       (sample_world ''passing'' fs)
        \<lparr>stored := (stored (sample_world ''passing'' []))
           (''m1'' \<mapsto> \<lparr>content = failure_message, labelIds = {''UNREAD''}\<rparr>)\<rparr>)"
    by (auto simp: archive_message_def sample_defs apply_bodies)
  show ?thesis
    by (simp add: process_one_def act_on_def sample_get_next sample_parse_pair
        sample_check_run a sample_subject)
qed

subsection \<open>A failing mutation\<close>

lemma mark_as_read_refused:
  "messages_modify srv mid mark_read_body w = (Inl (HttpError err), w') \<Longrightarrow>
   mark_as_read srv mid w =
     (Inr (), [Call_modify mid mark_read_body, Log (Error_MarkRead err)], w')"
  by (simp add: mark_as_read_def)

lemma archive_message_refused:
  "messages_modify srv mid archive_body w = (Inl (HttpError err), w') \<Longrightarrow>
   archive_message srv mid w =
     (Inr (), [Call_modify mid archive_body, Log (Error_Archive err)], w')"
  by (simp add: archive_message_def)

lemma process_loop_continues:
  "process_one sys srv mid w = (Inr (), evs, w2) \<Longrightarrow>
   process_loop sys srv (mid # rest) w = loop_after sys srv evs w2 rest"
  by (simp add: loop_after_def result_of_def events_of_def world_of_def split: prod.splits)

lemma parse_github_email_no_record:
  "fst (parse_github_email txt body) = None \<Longrightarrow> parse_github_email txt body = (None, [])"
  by (auto simp: parse_github_email_def split: option.splits list.splits)

lemma turn_no_record_refused:
  assumes "messages_get srv mid w = (Inr msg, w1)"
    and "fst (parse_github_email (message_text msg) []) = None"
    and "messages_modify srv mid mark_read_body w1 = (Inl (HttpError e), w2)"
  shows "process_one sys srv mid w =
     (Inr (),
      [Call_get mid, Log (Info_Processing (message_subject msg)), Log Info_NoStructuredInfo,
       Call_modify mid mark_read_body, Log (Error_MarkRead e)], w2)"
  using assms(1) parse_github_email_no_record[OF assms(2)] mark_as_read_refused[OF assms(3)]
  by (simp add: process_one_def act_on_def)

lemma turn_passing_refused:
  assumes "messages_get srv mid w = (Inr msg, w1)"
    and "parse_github_email (message_text msg) [] = (Some d, evp)"
    and "check_workflow_status sys (repo d) (workflow d) w1 = (Inr True, evc, w2)"
    and "messages_modify srv mid archive_body w2 = (Inl (HttpError e), w3)"
  shows "process_one sys srv mid w =
     (Inr (),
      [Call_get mid, Log (Info_Processing (message_subject msg))] @ map Log evp @ evc @
      [Log (Info_AlreadyPassing (workflow d)), Call_modify mid archive_body,
       Log (Error_Archive e)], w3)"
  using assms(1,2,3) archive_message_refused[OF assms(4)]
  by (simp add: process_one_def act_on_def)

lemma turn_failing_refused:
  assumes "messages_get srv mid w = (Inr msg, w1)"
    and "parse_github_email (message_text msg) [] = (Some d, evp)"
    and "check_workflow_status sys (repo d) (workflow d) w1 = (Inr False, evc, w2)"
    and "messages_modify srv mid mark_read_body w2 = (Inl (HttpError e), w3)"
  shows "process_one sys srv mid w =
     (Inr (),
      [Call_get mid, Log (Info_Processing (message_subject msg))] @ map Log evp @ evc @
      [Log (Info_ActionRequired (repo d)), Call_modify mid mark_read_body,
       Log (Error_MarkRead e)], w3)"
  using assms(1,2,3) mark_as_read_refused[OF assms(4)]
  by (simp add: process_one_def act_on_def)

text \<open>
  Claim C8. When the modify call of \<^verbatim>\<open>mark_as_read\<close> or of \<^verbatim>\<open>archive_message\<close> raises
  an \<^verbatim>\<open>HttpError\<close>, the function makes that one call and no second one, writes the
  error to the log and returns normally. In the loop, in each of the three branches of a
  turn (no record, workflow passing, workflow not passing), when the one modify call that
  the turn makes raises an \<^verbatim>\<open>HttpError\<close>, the turn is the fetch, its log lines, that call
  and the error line, and the loop goes on with the messages that are left, from the state
  the refused call left.
\<close>

theorem mutation_failure_logged_and_skipped:
  "(messages_modify srv mid mark_read_body w = (Inl (HttpError err), w') \<longrightarrow>
      mark_as_read srv mid w =
        (Inr (), [Call_modify mid mark_read_body, Log (Error_MarkRead err)], w')) \<and>
   (messages_modify srv mid archive_body w = (Inl (HttpError err), w') \<longrightarrow>
      archive_message srv mid w =
        (Inr (), [Call_modify mid archive_body, Log (Error_Archive err)], w')) \<and>
   (messages_get srv mid w = (Inr msg, w1) \<and>
    fst (parse_github_email (message_text msg) []) = None \<and>
    messages_modify srv mid mark_read_body w1 = (Inl (HttpError e), w2) \<longrightarrow>
      process_loop sys srv (mid # rest) w =
        loop_after sys srv
          [Call_get mid, Log (Info_Processing (message_subject msg)),
           Log Info_NoStructuredInfo, Call_modify mid mark_read_body,
           Log (Error_MarkRead e)] w2 rest) \<and>
   (messages_get srv mid w = (Inr msg, w1) \<and>
    parse_github_email (message_text msg) [] = (Some d, evp) \<and>
    check_workflow_status sys (repo d) (workflow d) w1 = (Inr True, evc, w2) \<and>
    messages_modify srv mid archive_body w2 = (Inl (HttpError e), w3) \<longrightarrow>
      process_loop sys srv (mid # rest) w =
        loop_after sys srv
          ([Call_get mid, Log (Info_Processing (message_subject msg))] @ map Log evp @ evc @
           [Log (Info_AlreadyPassing (workflow d)), Call_modify mid archive_body,
            Log (Error_Archive e)]) w3 rest) \<and>
   (messages_get srv mid w = (Inr msg, w1) \<and>
    parse_github_email (message_text msg) [] = (Some d, evp) \<and>
    check_workflow_status sys (repo d) (workflow d) w1 = (Inr False, evc, w2) \<and>
    messages_modify srv mid mark_read_body w2 = (Inl (HttpError e), w3) \<longrightarrow>
      process_loop sys srv (mid # rest) w =
        loop_after sys srv
          ([Call_get mid, Log (Info_Processing (message_subject msg))] @ map Log evp @ evc @
           [Log (Info_ActionRequired (repo d)), Call_modify mid mark_read_body,
            Log (Error_MarkRead e)]) w3 rest)"
  using mark_as_read_refused[of srv mid w err w'] archive_message_refused[of srv mid w err w']
    process_loop_continues[OF turn_no_record_refused, of srv mid w msg w1 e w2 sys rest]
    process_loop_continues[OF turn_passing_refused, of srv mid w msg w1 d evp sys evc w2 e w3 rest]
    process_loop_continues[OF turn_failing_refused, of srv mid w msg w1 d evp sys evc w2 e w3 rest]
  by blast

theorem mutation_failure_logged_and_skipped_witness:
  "mark_as_read gmail ''m2'' (sample_world ''passing'' [Some (HttpError ''503'')]) =
     (Inr (), [Call_modify ''m2'' mark_read_body, Log (Error_MarkRead ''503'')],
      sample_world ''passing'' []) \<and>
   archive_message gmail ''m1'' (sample_world ''passing'' [Some (HttpError ''503'')]) =
     (Inr (), [Call_modify ''m1'' archive_body, Log (Error_Archive ''503'')],
      sample_world ''passing'' []) \<and>
   process_loop (local_system toy_loads) gmail [''m2'', ''m1'']
       (sample_world ''passing'' [None, Some (HttpError ''503''), None, None]) =
     (Inr (),
      [Call_get ''m2'', Log (Info_Processing ''Random unrelated subject''),
       Log Info_NoStructuredInfo, Call_modify ''m2'' mark_read_body,
       Log (Error_MarkRead ''503''),
       Call_get ''m1'', Log (Info_Processing failure_subject),
       Log (Info_Detected ''iberi22/domus-otec'' ''CI''),
       Call_run (gh_args ''iberi22/domus-otec'' ''CI''),
       Log (Info_AlreadyPassing ''CI''),
       Call_modify ''m1'' archive_body, Log (Info_Archived ''m1'')],
      (sample_world ''passing'' [])
        \<lparr>stored := (stored (sample_world ''passing'' []))
           (''m1'' \<mapsto> \<lparr>content = failure_message, labelIds = {''UNREAD''}\<rparr>)\<rparr>) \<and>
   process_loop (local_system toy_loads) gmail [''m1'']
       (sample_world ''passing'' [None, Some (HttpError ''503'')]) =
     (Inr (),
      [Call_get ''m1'', Log (Info_Processing failure_subject),
       Log (Info_Detected ''iberi22/domus-otec'' ''CI''),
       Call_run (gh_args ''iberi22/domus-otec'' ''CI''),
       Log (Info_AlreadyPassing ''CI''),
       Call_modify ''m1'' archive_body, Log (Error_Archive ''503'')],
      sample_world ''passing'' []) \<and>
   process_loop (local_system toy_loads) gmail [''m1'']
       (sample_world ''failing'' [None, Some (HttpError ''503'')]) =
     (Inr (),
      [Call_get ''m1'', Log (Info_Processing failure_subject),
       Log (Info_Detected ''iberi22/domus-otec'' ''CI''),
       Call_run (gh_args ''iberi22/domus-otec'' ''CI''),
       Log (Info_ActionRequired ''iberi22/domus-otec''),
       Call_modify ''m1'' mark_read_body, Log (Error_MarkRead ''503'')],
      sample_world ''failing'' [])"
proof -
  let ?sys = "local_system toy_loads"
  let ?e = "HttpError ''503''"
  note t = mutation_failure_logged_and_skipped
  have a: "mark_as_read gmail ''m2'' (sample_world ''passing'' [Some ?e]) =
     (Inr (), [Call_modify ''m2'' mark_read_body, Log (Error_MarkRead ''503'')],
      sample_world ''passing'' [])"
    using t[where srv = gmail and mid = "''m2''" and w = "sample_world ''passing'' [Some ?e]"
        and err = "''503''" and w' = "sample_world ''passing'' []"]
      sample_fault(2)[of "''m2''" mark_read_body "''passing''" ?e "[]"]
    by blast
  have b: "archive_message gmail ''m1'' (sample_world ''passing'' [Some ?e]) =
     (Inr (), [Call_modify ''m1'' archive_body, Log (Error_Archive ''503'')],
      sample_world ''passing'' [])"
    using t[where srv = gmail and mid = "''m1''" and w = "sample_world ''passing'' [Some ?e]"
        and err = "''503''" and w' = "sample_world ''passing'' []"]
      sample_fault(2)[of "''m1''" archive_body "''passing''" ?e "[]"]
    by blast
  have "process_loop ?sys gmail [''m2'', ''m1'']
       (sample_world ''passing'' [None, Some ?e, None, None]) =
     loop_after ?sys gmail
       [Call_get ''m2'', Log (Info_Processing (message_subject unrelated_message)),
        Log Info_NoStructuredInfo, Call_modify ''m2'' mark_read_body,
        Log (Error_MarkRead ''503'')] (sample_world ''passing'' [None, None]) [''m1'']"
    using t[where srv = gmail and mid = "''m2''"
        and w = "sample_world ''passing'' [None, Some ?e, None, None]"
        and msg = unrelated_message and ?w1.0 = "sample_world ''passing'' [Some ?e, None, None]"
        and e = "''503''" and ?w2.0 = "sample_world ''passing'' [None, None]"
        and sys = ?sys and rest = "[''m1'']"]
      sample_get_next(2)[of "''passing''" "[Some ?e, None, None]"]
      sample_parse(2)
      sample_fault(2)[of "''m2''" mark_read_body "''passing''" ?e "[None, None]"]
    by blast
  then have c: "process_loop ?sys gmail [''m2'', ''m1'']
       (sample_world ''passing'' [None, Some ?e, None, None]) =
     (Inr (),
      [Call_get ''m2'', Log (Info_Processing ''Random unrelated subject''),
       Log Info_NoStructuredInfo, Call_modify ''m2'' mark_read_body,
       Log (Error_MarkRead ''503''),
       Call_get ''m1'', Log (Info_Processing failure_subject),
       Log (Info_Detected ''iberi22/domus-otec'' ''CI''),
       Call_run (gh_args ''iberi22/domus-otec'' ''CI''),
       Log (Info_AlreadyPassing ''CI''),
       Call_modify ''m1'' archive_body, Log (Info_Archived ''m1'')],
      (sample_world ''passing'' [])
        \<lparr>stored := (stored (sample_world ''passing'' []))
           (''m1'' \<mapsto> \<lparr>content = failure_message, labelIds = {''UNREAD''}\<rparr>)\<rparr>)"
    by (simp only: loop_after_def sample_loop_m1 result_of_def events_of_def world_of_def
        sample_subject fst_conv snd_conv append.simps)
  have "process_loop ?sys gmail [''m1''] (sample_world ''passing'' [None, Some ?e]) =
     loop_after ?sys gmail
       ([Call_get ''m1'', Log (Info_Processing (message_subject failure_message))] @
        map Log [Info_Detected ''iberi22/domus-otec'' ''CI''] @
        [Call_run (gh_args ''iberi22/domus-otec'' ''CI'')] @
        [Log (Info_AlreadyPassing ''CI''), Call_modify ''m1'' archive_body,
         Log (Error_Archive ''503'')]) (sample_world ''passing'' []) []"
    using t[where srv = gmail and mid = "''m1''"
        and w = "sample_world ''passing'' [None, Some ?e]"
        and msg = failure_message and ?w1.0 = "sample_world ''passing'' [Some ?e]"
        and e = "''503''" and sys = ?sys and rest = "[]"
        and d = "\<lparr>issue_type = ''github_action_failure'', repo = ''iberi22/domus-otec'',
           workflow = ''CI'',
           snippet = ''[iberi22/domus-otec] Run failed: CI - main (c33f718) ''\<rparr>"
        and evp = "[Info_Detected ''iberi22/domus-otec'' ''CI'']"
        and evc = "[Call_run (gh_args ''iberi22/domus-otec'' ''CI'')]"
        and ?w2.0 = "sample_world ''passing'' [Some ?e]" and ?w3.0 = "sample_world ''passing'' []"]
      sample_get_next(1)[of "''passing''" "[Some ?e]"]
      sample_parse_pair
      sample_check_run(1)[of "''iberi22/domus-otec''" "''CI''" "[Some ?e]"]
      sample_fault(2)[of "''m1''" archive_body "''passing''" ?e "[]"]
    by simp
  then have d: "process_loop ?sys gmail [''m1''] (sample_world ''passing'' [None, Some ?e]) =
     (Inr (),
      [Call_get ''m1'', Log (Info_Processing failure_subject),
       Log (Info_Detected ''iberi22/domus-otec'' ''CI''),
       Call_run (gh_args ''iberi22/domus-otec'' ''CI''),
       Log (Info_AlreadyPassing ''CI''),
       Call_modify ''m1'' archive_body, Log (Error_Archive ''503'')],
      sample_world ''passing'' [])"
    by (simp add: loop_after_def result_of_def events_of_def world_of_def sample_subject)
  have "process_loop ?sys gmail [''m1''] (sample_world ''failing'' [None, Some ?e]) =
     loop_after ?sys gmail
       ([Call_get ''m1'', Log (Info_Processing (message_subject failure_message))] @
        map Log [Info_Detected ''iberi22/domus-otec'' ''CI''] @
        [Call_run (gh_args ''iberi22/domus-otec'' ''CI'')] @
        [Log (Info_ActionRequired ''iberi22/domus-otec''), Call_modify ''m1'' mark_read_body,
         Log (Error_MarkRead ''503'')]) (sample_world ''failing'' []) []"
    using t[where srv = gmail and mid = "''m1''"
        and w = "sample_world ''failing'' [None, Some ?e]"
        and msg = failure_message and ?w1.0 = "sample_world ''failing'' [Some ?e]"
        and e = "''503''" and sys = ?sys and rest = "[]"
        and d = "\<lparr>issue_type = ''github_action_failure'', repo = ''iberi22/domus-otec'',
           workflow = ''CI'',
           snippet = ''[iberi22/domus-otec] Run failed: CI - main (c33f718) ''\<rparr>"
        and evp = "[Info_Detected ''iberi22/domus-otec'' ''CI'']"
        and evc = "[Call_run (gh_args ''iberi22/domus-otec'' ''CI'')]"
        and ?w2.0 = "sample_world ''failing'' [Some ?e]" and ?w3.0 = "sample_world ''failing'' []"]
      sample_get_next(1)[of "''failing''" "[Some ?e]"]
      sample_parse_pair
      sample_check_run(2)[of "''iberi22/domus-otec''" "''CI''" "[Some ?e]"]
      sample_fault(2)[of "''m1''" mark_read_body "''failing''" ?e "[]"]
    by simp
  then have e: "process_loop ?sys gmail [''m1''] (sample_world ''failing'' [None, Some ?e]) =
     (Inr (),
      [Call_get ''m1'', Log (Info_Processing failure_subject),
       Log (Info_Detected ''iberi22/domus-otec'' ''CI''),
       Call_run (gh_args ''iberi22/domus-otec'' ''CI''),
       Log (Info_ActionRequired ''iberi22/domus-otec''),
       Call_modify ''m1'' mark_read_body, Log (Error_MarkRead ''503'')],
      sample_world ''failing'' [])"
    by (simp add: loop_after_def result_of_def events_of_def world_of_def sample_subject)
  from a b c d e show ?thesis by blast
qed

subsection \<open>A failing fetch\<close>

lemma process_loop_append:
  "process_loop sys srv (xs @ ys) w =
     (case process_loop sys srv xs w of
        (Inl e, evs, w1) \<Rightarrow> (Inl e, evs, w1)
      | (Inr u, evs, w1) \<Rightarrow>
          (case process_loop sys srv ys w1 of (r, evs', w2) \<Rightarrow> (r, evs @ evs', w2)))"
proof (induction xs arbitrary: w)
  case Nil
  show ?case by (simp split: prod.splits)
next
  case (Cons x xs)
  show ?case by (simp add: Cons.IH split: prod.splits sum.splits)
qed

text \<open>
  Claim C10. When the messages before \<open>mid\<close> were processed and the fetch of \<open>mid\<close> raises
  an \<^verbatim>\<open>HttpError\<close>, the run is the list query, the turns of the messages before, the
  failed fetch and one error line: the handler of \<^verbatim>\<open>process_messages\<close> takes the
  exception, and no message after \<open>mid\<close> is fetched, checked or modified.
\<close>

theorem fetch_failure_stops_the_loop:
  assumes "messages_list srv query w0 = (Inr (Some (pre @ mid # post)), w)"
    and "process_loop sys srv pre w = (Inr (), evs1, w1)"
    and "messages_get srv mid w1 = (Inl (HttpError err), w2)"
  shows "process_messages sys srv w0 =
     (Inr (),
      [Call_list query, Log (Info_FoundFailures (length (pre @ mid # post)))] @ evs1 @
      [Call_get mid, Log (Error_ProcessingMessages err)], w2)"
proof -
  have one: "process_one sys srv mid w1 = (Inl (HttpError err), [Call_get mid], w2)"
    using assms(3) by (simp add: process_one_def)
  have loop: "process_loop sys srv (pre @ mid # post) w =
      (Inl (HttpError err), evs1 @ [Call_get mid], w2)"
    unfolding process_loop_append using assms(2) one by simp
  obtain m ms where ms: "pre @ mid # post = m # ms" by (cases pre) auto
  have "process_messages_try sys srv w0 =
      (Inl (HttpError err),
       [Call_list query, Log (Info_FoundFailures (length (pre @ mid # post)))] @ evs1 @
       [Call_get mid], w2)"
    using assms(1) loop unfolding ms by (simp add: process_messages_try_def)
  then show ?thesis by (simp add: process_messages_def)
qed

theorem fetch_failure_stops_the_loop_witness:
  "process_messages (local_system toy_loads) gmail
       (sample_world ''passing'' [None, Some (HttpError ''500'')]) =
     (Inr (),
      [Call_list query, Log (Info_FoundFailures 2),
       Call_get ''m1'', Log (Error_ProcessingMessages ''500'')],
      sample_world ''passing'' []) \<and>
   process_messages (local_system toy_loads) gmail
       (sample_world ''passing'' [None, None, None, Some (HttpError ''500'')]) =
     (Inr (),
      [Call_list query, Log (Info_FoundFailures 2),
       Call_get ''m1'', Log (Info_Processing failure_subject),
       Log (Info_Detected ''iberi22/domus-otec'' ''CI''),
       Call_run (gh_args ''iberi22/domus-otec'' ''CI''),
       Log (Info_AlreadyPassing ''CI''),
       Call_modify ''m1'' archive_body, Log (Info_Archived ''m1''),
       Call_get ''m2'', Log (Error_ProcessingMessages ''500'')],
      (sample_world ''passing'' [])
        \<lparr>stored := (stored (sample_world ''passing'' []))
           (''m1'' \<mapsto> \<lparr>content = failure_message, labelIds = {''UNREAD''}\<rparr>)\<rparr>)"
proof -
  let ?sys = "local_system toy_loads"
  have l0: "messages_list gmail query (sample_world ''passing'' [None, Some (HttpError ''500'')]) =
     (Inr (Some ([] @ ''m1'' # [''m2''])), sample_world ''passing'' [Some (HttpError ''500'')])"
    using sample_list[of "''passing''" "[Some (HttpError ''500'')]"] by simp
  have p0: "process_loop ?sys gmail [] (sample_world ''passing'' [Some (HttpError ''500'')]) =
      (Inr (), [], sample_world ''passing'' [Some (HttpError ''500'')])" by simp
  have g0: "messages_get gmail ''m1'' (sample_world ''passing'' [Some (HttpError ''500'')]) =
      (Inl (HttpError ''500''), sample_world ''passing'' [])"
    by (rule sample_fault(1))
  from fetch_failure_stops_the_loop[OF l0 p0 g0]
  have a: "process_messages ?sys gmail (sample_world ''passing'' [None, Some (HttpError ''500'')]) =
     (Inr (),
      [Call_list query, Log (Info_FoundFailures 2),
       Call_get ''m1'', Log (Error_ProcessingMessages ''500'')],
      sample_world ''passing'' [])" by simp
  have l: "messages_list gmail query
       (sample_world ''passing'' [None, None, None, Some (HttpError ''500'')]) =
     (Inr (Some ([''m1''] @ ''m2'' # [])),
      sample_world ''passing'' [None, None, Some (HttpError ''500'')])"
    using sample_list[of "''passing''" "[None, None, Some (HttpError ''500'')]"] by simp
  have g: "messages_get gmail ''m2''
      ((sample_world ''passing'' [Some (HttpError ''500'')])
        \<lparr>stored := (stored (sample_world ''passing'' []))
           (''m1'' \<mapsto> \<lparr>content = failure_message, labelIds = {''UNREAD''}\<rparr>)\<rparr>) =
      (Inl (HttpError ''500''),
       (sample_world ''passing'' [])
        \<lparr>stored := (stored (sample_world ''passing'' []))
           (''m1'' \<mapsto> \<lparr>content = failure_message, labelIds = {''UNREAD''}\<rparr>)\<rparr>)"
    by (simp add: sample_defs)
  from fetch_failure_stops_the_loop[OF l sample_loop_m1 g]
  have b: "process_messages ?sys gmail
       (sample_world ''passing'' [None, None, None, Some (HttpError ''500'')]) =
     (Inr (),
      [Call_list query, Log (Info_FoundFailures 2),
       Call_get ''m1'', Log (Info_Processing failure_subject),
       Log (Info_Detected ''iberi22/domus-otec'' ''CI''),
       Call_run (gh_args ''iberi22/domus-otec'' ''CI''),
       Log (Info_AlreadyPassing ''CI''),
       Call_modify ''m1'' archive_body, Log (Info_Archived ''m1''),
       Call_get ''m2'', Log (Error_ProcessingMessages ''500'')],
      (sample_world ''passing'' [])
        \<lparr>stored := (stored (sample_world ''passing'' []))
           (''m1'' \<mapsto> \<lparr>content = failure_message, labelIds = {''UNREAD''}\<rparr>)\<rparr>)" by simp
  from a b show ?thesis by blast
qed

subsection \<open>Tokens the extractor does not take\<close>

lemma split_at_first:
  "x \<notin> set xs \<Longrightarrow> x \<notin> set xs' \<Longrightarrow> xs @ x # ys = xs' @ x # ys' \<Longrightarrow> xs = xs' \<and> ys = ys'"
proof (induction xs arbitrary: xs')
  case Nil
  then show ?case by (cases xs') auto
next
  case (Cons a xs)
  then show ?case by (cases xs') auto
qed

lemma name_ok_no_delimiters:
  assumes "name_ok x"
  shows "CHR ''/'' \<notin> set x" "CHR '']'' \<notin> set x"
  using assms not_word_or_hyphen_slash not_word_or_hyphen_bracket
  by (auto simp: name_ok_def list_all_iff)

lemma parse_github_email_repo:
  assumes "fst (parse_github_email txt body) = Some d"
  shows "\<exists>ow rp. repo d = ow @ ''/'' @ rp \<and> name_ok ow \<and> name_ok rp"
proof -
  have "search github_pattern txt \<noteq> None"
  proof
    assume "search github_pattern txt = None"
    then have "fst (parse_github_email txt body) = None"
      by (simp add: parse_github_email_None)
    with assms show False by simp
  qed
  then obtain r where r: "search github_pattern txt = Some r" by blast
  then obtain pre ow rp w post where o: "occurrence txt pre ow rp w post"
    and m: "r = marks ow rp w post"
    unfolding search_Some_iff by blast
  from r m assms have "d = \<lparr>issue_type = ''github_action_failure'', repo = ow @ ''/'' @ rp,
      workflow = w, snippet = txt\<rparr>"
    by (simp add: parse_github_email_Some)
  with o show ?thesis by (auto simp: occurrence_def)
qed

lemma occurrence_same_start:
  assumes "occurrence txt pre' ow' rp' w' post'" "txt = pre @ rest" "length pre' = length pre"
  shows "pre' = pre"
  using assms by (auto simp: occurrence_def append_eq_append_conv)

lemma bad_token_starts_nothing:
  assumes tx: "txt = pre @ ''['' @ ow @ ''/'' @ rp @ '']'' @ rest"
    and tk: "CHR '']'' \<notin> set ow \<union> set rp"
    and bad: "\<not> (name_ok ow \<and> name_ok rp)"
  shows "\<not> occurrence txt pre ow' rp' w' post'"
proof
  assume "occurrence txt pre ow' rp' w' post'"
  then have t': "txt = pre @ failure_shape ow' rp' w' @ post'" and ok: "name_ok ow'" "name_ok rp'"
    unfolding occurrence_def by blast+
  have e3: "(ow @ CHR ''/'' # rp) @ CHR '']'' # rest =
      (ow' @ CHR ''/'' # rp') @ CHR '']'' # '' Run failed: '' @ w' @ '' -'' @ post'"
    using tx t' by (simp add: failure_shape_def)
  have "CHR '']'' \<notin> set (ow @ CHR ''/'' # rp)" using tk by auto
  moreover have "CHR '']'' \<notin> set (ow' @ CHR ''/'' # rp')"
    using name_ok_no_delimiters(2)[OF ok(1)] name_ok_no_delimiters(2)[OF ok(2)] by auto
  ultimately have e4: "ow @ CHR ''/'' # rp = ow' @ CHR ''/'' # rp'"
    using split_at_first[OF _ _ e3] by blast
  from append_Cons_eq_iff[OF name_ok_no_delimiters(1)[OF ok(1)]
      name_ok_no_delimiters(1)[OF ok(2)], of ow rp] e4
  have "ow' = ow \<and> rp' = rp" by simp
  with ok bad show False by simp
qed

lemma bad_token_None_iff:
  assumes tx: "txt = pre @ ''['' @ ow @ ''/'' @ rp @ '']'' @ rest"
    and tk: "CHR '']'' \<notin> set ow \<union> set rp"
    and bad: "\<not> (name_ok ow \<and> name_ok rp)"
  shows "fst (parse_github_email txt body) = None \<longleftrightarrow>
     \<not> (\<exists>pre' ow' rp' w' post'. occurrence txt pre' ow' rp' w' post' \<and>
           length pre' \<noteq> length pre)"
proof -
  have "(\<exists>pre' ow' rp' w' post'. occurrence txt pre' ow' rp' w' post') \<longleftrightarrow>
      (\<exists>pre' ow' rp' w' post'. occurrence txt pre' ow' rp' w' post' \<and>
           length pre' \<noteq> length pre)" (is "?A \<longleftrightarrow> ?B")
  proof
    assume ?A
    then obtain pre' ow' rp' w' post' where o: "occurrence txt pre' ow' rp' w' post'" by blast
    have "length pre' \<noteq> length pre"
    proof
      assume "length pre' = length pre"
      with o tx have "pre' = pre" by (rule occurrence_same_start)
      with o bad_token_starts_nothing[OF tx tk bad] show False by blast
    qed
    with o show ?B by blast
  next
    assume ?B then show ?A by blast
  qed
  moreover have "fst (parse_github_email txt body) = None \<longleftrightarrow> \<not> ?A"
  proof (cases "search github_pattern txt")
    case None
    then show ?thesis using search_None_iff by (simp add: parse_github_email_None)
  next
    case (Some r)
    then obtain pre' ow' rp' w' post' where o: "occurrence txt pre' ow' rp' w' post'"
      and m: "r = marks ow' rp' w' post'"
      unfolding search_Some_iff by blast
    from Some m have "fst (parse_github_email txt body) \<noteq> None"
      by (simp add: parse_github_email_Some)
    with o show ?thesis by blast
  qed
  ultimately show ?thesis by simp
qed

lemma turn_no_record:
  assumes "messages_get srv mid w = (Inr msg, w1)"
    and "fst (parse_github_email (message_text msg) []) = None"
  shows "mutation_calls (events_of (process_one sys srv mid w)) =
           [Call_modify mid mark_read_body] \<and>
         status_calls (events_of (process_one sys srv mid w)) = [] \<and>
         world_of (process_one sys srv mid w) =
           snd (messages_modify srv mid mark_read_body w1)"
proof -
  obtain r evs w2 where m: "mark_as_read srv mid w1 = (r, evs, w2)"
    by (cases "mark_as_read srv mid w1")
  with world_of_mark_as_read[of srv mid w1]
  have "w2 = snd (messages_modify srv mid mark_read_body w1)" by (simp add: world_of_def)
  with assms(1) parse_github_email_no_record[OF assms(2)] m
  have "world_of (process_one sys srv mid w) = snd (messages_modify srv mid mark_read_body w1)"
    by (simp add: process_one_def act_on_def world_of_def)
  with process_one_fetched[OF assms(1), of sys] act_on_None_calls[of sys srv mid w1] assms(2)
  show ?thesis by simp
qed

text \<open>
  Claim C9. In every record the extractor returns, the repository is \<open>ow/rp\<close> with \<open>ow\<close>
  and \<open>rp\<close> non-empty runs of word characters and hyphens. A bracketed token \<^verbatim>\<open>[ow/rp]\<close>
  that is not of that kind starts no match, and a text that holds one yields no record
  exactly when the shape \<^verbatim>\<open>[o/r] Run failed: W -\<close> starts at no other position of it. A
  fetched message whose text yields no record gets one mutation, the call of the service
  that removes \<^verbatim>\<open>UNREAD\<close>, and no call of the status checker; the state after the turn is
  the one that call of the service left.
\<close>

theorem extractor_needs_word_names:
  "(\<forall>d. fst (parse_github_email txt body) = Some d \<longrightarrow>
       (\<exists>ow rp. repo d = ow @ ''/'' @ rp \<and> name_ok ow \<and> name_ok rp)) \<and>
   (txt = pre @ ''['' @ ow @ ''/'' @ rp @ '']'' @ rest \<and>
    CHR '']'' \<notin> set ow \<union> set rp \<and> \<not> (name_ok ow \<and> name_ok rp) \<longrightarrow>
      (\<forall>ow' rp' w' post'. \<not> occurrence txt pre ow' rp' w' post') \<and>
      (fst (parse_github_email txt body) = None \<longleftrightarrow>
         \<not> (\<exists>pre' ow' rp' w' post'. occurrence txt pre' ow' rp' w' post' \<and>
               length pre' \<noteq> length pre))) \<and>
   (messages_get srv mid w = (Inr msg, w1) \<and>
    fst (parse_github_email (message_text msg) []) = None \<longrightarrow>
      mutation_calls (events_of (process_one sys srv mid w)) =
        [Call_modify mid mark_read_body] \<and>
      status_calls (events_of (process_one sys srv mid w)) = [] \<and>
      world_of (process_one sys srv mid w) =
        snd (messages_modify srv mid mark_read_body w1))"
proof (intro conjI allI impI)
  fix d assume "fst (parse_github_email txt body) = Some d"
  then show "\<exists>ow rp. repo d = ow @ ''/'' @ rp \<and> name_ok ow \<and> name_ok rp"
    by (rule parse_github_email_repo)
next
  fix ow' rp' w' post'
  assume "txt = pre @ ''['' @ ow @ ''/'' @ rp @ '']'' @ rest \<and>
    CHR '']'' \<notin> set ow \<union> set rp \<and> \<not> (name_ok ow \<and> name_ok rp)"
  then show "\<not> occurrence txt pre ow' rp' w' post'"
    using bad_token_starts_nothing by blast
next
  assume "txt = pre @ ''['' @ ow @ ''/'' @ rp @ '']'' @ rest \<and>
    CHR '']'' \<notin> set ow \<union> set rp \<and> \<not> (name_ok ow \<and> name_ok rp)"
  then have h: "txt = pre @ ''['' @ ow @ ''/'' @ rp @ '']'' @ rest"
    "CHR '']'' \<notin> set ow \<union> set rp" "\<not> (name_ok ow \<and> name_ok rp)"
    by blast+
  show "fst (parse_github_email txt body) = None \<longleftrightarrow>
         \<not> (\<exists>pre' ow' rp' w' post'. occurrence txt pre' ow' rp' w' post' \<and>
               length pre' \<noteq> length pre)"
    by (rule bad_token_None_iff[OF h])
next
  assume g: "messages_get srv mid w = (Inr msg, w1) \<and>
    fst (parse_github_email (message_text msg) []) = None"
  then have g1: "messages_get srv mid w = (Inr msg, w1)"
    and g2: "fst (parse_github_email (message_text msg) []) = None" by simp_all
  from turn_no_record[OF g1 g2, of sys]
  show "mutation_calls (events_of (process_one sys srv mid w)) =
        [Call_modify mid mark_read_body]"
    and "status_calls (events_of (process_one sys srv mid w)) = []"
    and "world_of (process_one sys srv mid w) =
        snd (messages_modify srv mid mark_read_body w1)"
    by simp_all
qed

theorem extractor_needs_word_names_witness:
  "fst (parse_github_email ''[owner/repo.js] Run failed: CI - main (sha) [skip ci]'' []) = None \<and>
   \<not> (\<exists>pre' ow' rp' w' post'.
         occurrence ''[owner/repo.js] Run failed: CI - main (sha) [skip ci]''
           pre' ow' rp' w' post' \<and> length pre' \<noteq> length ([] :: string)) \<and>
   (\<exists>pre' ow' rp' w' post'.
      occurrence ''[owner/repo.js] Run failed: CI - main [a/b] Run failed: X - y''
        pre' ow' rp' w' post' \<and> length pre' \<noteq> length ([] :: string)) \<and>
   mutation_calls (events_of (process_one (local_system toy_loads) gmail ''m3''
       (sample_world ''passing'' []))) = [Call_modify ''m3'' mark_read_body] \<and>
   status_calls (events_of (process_one (local_system toy_loads) gmail ''m3''
       (sample_world ''passing'' []))) = [] \<and>
   map_option labelIds (stored (world_of (process_one (local_system toy_loads) gmail ''m3''
       (sample_world ''passing'' []))) ''m3'') = Some {''INBOX''} \<and>
   (\<exists>ow rp. ''iberi22/domus-otec'' = ow @ ''/'' @ rp \<and> name_ok ow \<and> name_ok rp)"
proof -
  let ?t1 = "''[owner/repo.js] Run failed: CI - main (sha) [skip ci]''"
  let ?t2 = "''[owner/repo.js] Run failed: CI - main [a/b] Run failed: X - y''"
  note t = extractor_needs_word_names[where body = "[]" and pre = "[]" and ow = "''owner''"
      and rp = "''repo.js''" and srv = gmail and mid = "''m3''"
      and w = "sample_world ''passing'' []" and msg = dotted_message
      and ?w1.0 = "sample_world ''passing'' []" and sys = "local_system toy_loads"]
  have bad: "CHR '']'' \<notin> set ''owner'' \<union> set ''repo.js'' \<and>
      \<not> (name_ok ''owner'' \<and> name_ok ''repo.js'')"
    by (simp add: name_ok_def word_or_hyphen_def is_word_char_def)
  have h1: "?t1 = [] @ ''['' @ ''owner'' @ ''/'' @ ''repo.js'' @ '']'' @
      '' Run failed: CI - main (sha) [skip ci]''" by simp
  have h2: "?t2 = [] @ ''['' @ ''owner'' @ ''/'' @ ''repo.js'' @ '']'' @
      '' Run failed: CI - main [a/b] Run failed: X - y''" by simp
  have n1: "fst (parse_github_email ?t1 []) = None" by (simp add: extract_defs)
  have n2: "fst (parse_github_email ?t2 []) \<noteq> None" by (simp add: extract_defs)
  from t[where ?txt = ?t1 and rest = "'' Run failed: CI - main (sha) [skip ci]''"] h1 bad n1
  have a: "\<not> (\<exists>pre' ow' rp' w' post'. occurrence ?t1 pre' ow' rp' w' post' \<and>
      length pre' \<noteq> length ([] :: string))" by blast
  from t[where ?txt = ?t2 and rest = "'' Run failed: CI - main [a/b] Run failed: X - y''"]
    h2 bad n2
  have b: "\<exists>pre' ow' rp' w' post'. occurrence ?t2 pre' ow' rp' w' post' \<and>
      length pre' \<noteq> length ([] :: string)" by blast
  from t[where ?txt = ?t1 and rest = "[]"] sample_get(3)[of "''passing''"] sample_parse(3)
  have c: "mutation_calls (events_of (process_one (local_system toy_loads) gmail ''m3''
       (sample_world ''passing'' []))) = [Call_modify ''m3'' mark_read_body]"
    "status_calls (events_of (process_one (local_system toy_loads) gmail ''m3''
       (sample_world ''passing'' []))) = []"
    "world_of (process_one (local_system toy_loads) gmail ''m3''
       (sample_world ''passing'' [])) =
     snd (messages_modify gmail ''m3'' mark_read_body (sample_world ''passing'' []))"
    by blast+
  have d: "map_option labelIds (stored (world_of (process_one (local_system toy_loads) gmail
       ''m3'' (sample_world ''passing'' []))) ''m3'') = Some {''INBOX''}"
    unfolding c(3) by (auto simp: sample_defs apply_bodies)
  from t[where ?txt = "message_text failure_message" and rest = "[]"] sample_parse(1)
  have e: "\<exists>ow rp. ''iberi22/domus-otec'' = ow @ ''/'' @ rp \<and> name_ok ow \<and> name_ok rp"
    by fastforce
  from n1 a b c(1,2) d e show ?thesis by blast
qed

text \<open>
  Claim C9, as worded, fails where a second bracketed token follows the first: the token
  \<^verbatim>\<open>[owner/repo.js]\<close> is passed over, and the record comes from \<^verbatim>\<open>[a/b]\<close> further right.
\<close>

theorem bad_token_then_good_token:
  "fst (parse_github_email
         ''[owner/repo.js] Run failed: CI - main [a/b] Run failed: X - y'' []) =
     Some \<lparr>issue_type = ''github_action_failure'', repo = ''a/b'', workflow = ''X'',
           snippet = ''[owner/repo.js] Run failed: CI - main [a/b] Run failed: X - y''\<rparr>"
  by (simp add: extract_defs)

end
